theory Spec2Isabelle
  imports Main "HOL-Library.Word"
begin

unbundle bit_operations_syntax

section \<open>Data model (pkg/models/types.go and the chunk model)\<close>

text \<open>
  Bytes are 8-bit words. A \<open>time.Time\<close> is an opaque instant compared with \<open>=\<close>, taken
  as an integer. Go's \<open>int64\<close> and \<open>int\<close> values are integers, and every addition the
  code performs on them is wrapped to 64 bits by \<open>wrap64\<close>. The length of a slice always
  fits, so \<open>int64(len(x))\<close> is \<open>int (length x)\<close>.
\<close>

type_synonym byte = "8 word"

definition wrap64 :: "int \<Rightarrow> int" where
  "wrap64 x = (x + 2 ^ 63) mod 2 ^ 64 - 2 ^ 63"

definition add64 :: "int \<Rightarrow> int \<Rightarrow> int" where
  "add64 a b = wrap64 (a + b)"

record ChunkInfo =
  ci_ID :: int
  ci_Filename :: string
  ci_Size :: int
  ci_Hash :: string
  ci_CompressedSize :: int

record FileInfo =
  fi_Path :: string
  fi_Size :: int
  fi_ModTime :: int
  fi_Hash :: string
  fi_ChunkRefs :: "int list"
  fi_IsDeleted :: bool

record BackupMetadata =
  md_Version :: string
  md_CreatedAt :: int
  md_UpdatedAt :: int
  md_Files :: "string \<rightharpoonup> FileInfo"
  md_Chunks :: "ChunkInfo list"

record FileChange =
  fc_Path :: string
  fc_Operation :: string
  fc_FileInfo :: "FileInfo option"

record ChunkFileInfo =
  cf_Path :: string
  cf_Offset :: int
  cf_Size :: int
  cf_Hash :: string

record ChunkData =
  cd_ID :: int
  cd_Data :: "byte list"
  cd_Files :: "ChunkFileInfo list"
  cd_Hash :: string

definition ChunkSize :: int where
  "ChunkSize = 5 * 1024 * 1024"

text \<open>\<open>NewChunker\<close> always starts the counter at 1.\<close>

definition NewChunker :: int where
  "NewChunker = 1"

datatype error =
    ErrBoundary
  | ErrHashMismatch
  | ErrSlicePanic
  | ErrCompress int
  | ErrWriteChunk
  | ErrCreateBackupChunks error
  | ErrPathEmpty
  | ErrInvalidPath
  | ErrUnmarshal
  | ErrTraversal
  | ErrMkdir
  | ErrSaveTmp
  | ErrSaveRename
  | ErrChunkMissing string
  | ErrChunkNotFound int
  | ErrReadChunk
  | ErrDecompress
  | ErrChunkHash int
  | ErrWriteRestored

section \<open>The watched tree\<close>

text \<open>
  The watched tree is a snapshot: the list of its entries in the order
  \<open>filepath.Walk\<close> visits them, each with its full path. \<open>os.Stat\<close> of a regular file
  reports the length of its content as size. A \<open>WalkErr\<close> entry is one that the walk
  reports with an error and that \<open>os.Stat\<close> cannot read; a file that is not readable
  can be stat'ed but neither read nor hashed.
\<close>

datatype fsnode =
    Dir
  | File (f_data: "byte list") (f_mtime: int) (f_readable: bool)
  | WalkErr

type_synonym tree = "(string \<times> fsnode) list"

definition Stat :: "tree \<Rightarrow> string \<Rightarrow> fsnode option" where
  "Stat t p = (case map_of t p of
       None \<Rightarrow> None
     | Some WalkErr \<Rightarrow> None
     | Some n \<Rightarrow> Some n)"

fun IsDir :: "fsnode \<Rightarrow> bool" where
  "IsDir Dir = True"
| "IsDir _ = False"

fun Size :: "fsnode \<Rightarrow> int" where
  "Size (File d mt r) = int (length d)"
| "Size _ = 0"

definition ReadFile :: "tree \<Rightarrow> string \<Rightarrow> byte list option" where
  "ReadFile t p = (case map_of t p of
       Some (File d mt r) \<Rightarrow> (if r then Some d else None)
     | _ \<Rightarrow> None)"

text \<open>
  The digest (\<open>crypto/sha256\<close>, printed in hexadecimal) is a parameter \<open>H\<close> of the model.
\<close>

definition CalculateDataHash :: "(byte list \<Rightarrow> string) \<Rightarrow> byte list \<Rightarrow> string" where
  "CalculateDataHash H data = H data"

definition CalculateFileHash ::
    "(byte list \<Rightarrow> string) \<Rightarrow> tree \<Rightarrow> string \<Rightarrow> string option" where
  "CalculateFileHash H t p = (case ReadFile t p of None \<Rightarrow> None | Some d \<Rightarrow> Some (H d))"

section \<open>Chunk packer (internal/backup/chunker.go)\<close>

text \<open>
  The loop state of \<open>CreateChunks\<close>: the sealed chunks, the chunk in progress, its
  running size and the chunker's counter \<open>c.chunkID\<close>.
\<close>

record pack_state =
  ps_chunks :: "ChunkData list"
  ps_current :: ChunkData
  ps_size :: int
  ps_chunkID :: int

definition new_chunk :: "int \<Rightarrow> ChunkData" where
  "new_chunk i = \<lparr>cd_ID = i, cd_Data = [], cd_Files = [], cd_Hash = []\<rparr>"

definition seals :: "pack_state \<Rightarrow> int \<Rightarrow> bool" where
  "seals s sz \<longleftrightarrow> add64 (ps_size s) sz > ChunkSize \<and> cd_Files (ps_current s) \<noteq> []"

definition seal :: "(byte list \<Rightarrow> string) \<Rightarrow> pack_state \<Rightarrow> pack_state" where
  "seal H s =
     \<lparr>ps_chunks = ps_chunks s @
          [(ps_current s)\<lparr>cd_Hash := CalculateDataHash H (cd_Data (ps_current s))\<rparr>],
      ps_current = new_chunk (ps_chunkID s),
      ps_size = 0,
      ps_chunkID = add64 (ps_chunkID s) 1\<rparr>"

definition add_file :: "pack_state \<Rightarrow> string \<Rightarrow> int \<Rightarrow> byte list \<Rightarrow> string \<Rightarrow> pack_state" where
  "add_file s p sz fileData fileHash =
     s\<lparr>ps_current := (ps_current s)
          \<lparr>cd_Files := cd_Files (ps_current s) @
             [\<lparr>cf_Path = p, cf_Offset = int (length (cd_Data (ps_current s))),
               cf_Size = sz, cf_Hash = fileHash\<rparr>],
           cd_Data := cd_Data (ps_current s) @ fileData\<rparr>,
       ps_size := add64 (ps_size s) sz\<rparr>"

text \<open>One iteration of the loop over \<open>files\<close>; every \<open>continue\<close> returns the state so far.\<close>

definition pack_file :: "(byte list \<Rightarrow> string) \<Rightarrow> tree \<Rightarrow> pack_state \<Rightarrow> string \<Rightarrow> pack_state" where
  "pack_file H t s p =
     (case Stat t p of
        None \<Rightarrow> s
      | Some info \<Rightarrow>
          if IsDir info then s
          else
            let s1 = (if seals s (Size info) then seal H s else s)
            in (case ReadFile t p of
                  None \<Rightarrow> s1
                | Some fileData \<Rightarrow>
                    (case CalculateFileHash H t p of
                       None \<Rightarrow> s1
                     | Some fileHash \<Rightarrow> add_file s1 p (Size info) fileData fileHash)))"

definition pack_init :: "int \<Rightarrow> pack_state" where
  "pack_init c = \<lparr>ps_chunks = [], ps_current = new_chunk c, ps_size = 0,
                  ps_chunkID = add64 c 1\<rparr>"

definition pack_finish :: "(byte list \<Rightarrow> string) \<Rightarrow> pack_state \<Rightarrow> ChunkData list" where
  "pack_finish H s =
     (if cd_Files (ps_current s) \<noteq> []
      then ps_chunks s @
           [(ps_current s)\<lparr>cd_Hash := CalculateDataHash H (cd_Data (ps_current s))\<rparr>]
      else ps_chunks s)"

text \<open>
  \<open>CreateChunks\<close> on a chunker whose counter is \<open>c\<close>: the chunks and the counter
  afterwards. The Go function's error result is always nil.
\<close>

definition CreateChunks ::
    "(byte list \<Rightarrow> string) \<Rightarrow> tree \<Rightarrow> int \<Rightarrow> string list \<Rightarrow> ChunkData list \<times> int" where
  "CreateChunks H t c files =
     (let s = foldl (pack_file H t) (pack_init c) files
      in (pack_finish H s, ps_chunkID s))"

text \<open>
  A slice expression \<open>xs[lo:hi]\<close> panics unless \<open>0 \<le> lo \<le> hi \<le> len(xs)\<close> (the chunk
  bytes come from reading a whole stream, and the guard before the slice bounds \<open>hi\<close> by
  the length).
\<close>

definition go_slice :: "'a list \<Rightarrow> int \<Rightarrow> int \<Rightarrow> error + 'a list" where
  "go_slice xs lo hi =
     (if 0 \<le> lo \<and> lo \<le> hi \<and> hi \<le> int (length xs)
      then Inr (take (nat (hi - lo)) (drop (nat lo) xs))
      else Inl ErrSlicePanic)"

definition ExtractFileFromChunk ::
    "(byte list \<Rightarrow> string) \<Rightarrow> byte list \<Rightarrow> ChunkFileInfo \<Rightarrow> error + byte list" where
  "ExtractFileFromChunk H chunkData fileInfo =
     (if add64 (cf_Offset fileInfo) (cf_Size fileInfo) > int (length chunkData)
      then Inl ErrBoundary
      else (case go_slice chunkData (cf_Offset fileInfo)
                    (add64 (cf_Offset fileInfo) (cf_Size fileInfo)) of
              Inl e \<Rightarrow> Inl e
            | Inr data \<Rightarrow>
                if CalculateDataHash H data \<noteq> cf_Hash fileInfo then Inl ErrHashMismatch
                else Inr data))"


section \<open>Paths and the operating system\<close>

text \<open>
  \<open>filepath.Join\<close>, \<open>filepath.Rel\<close>, \<open>filepath.Dir\<close> and \<open>filepath.Abs\<close> are library
  functions. They are taken on clean, slash-separated, absolute directory arguments and
  clean relative file paths, where \<open>Join\<close> puts a separator between its arguments,
  \<open>Rel\<close> strips the base and its separator, and \<open>Abs\<close> returns its argument. Outside
  this domain \<open>Rel\<close> is \<open>None\<close> here (the library would answer with dot-dot segments).
\<close>

definition Join :: "string \<Rightarrow> string \<Rightarrow> string" where
  "Join a b = a @ ''/'' @ b"

definition Rel :: "string \<Rightarrow> string \<Rightarrow> string option" where
  "Rel base targ =
     (if take (length base + 1) targ = base @ ''/''
      then Some (drop (length base + 1) targ) else None)"

definition DirName :: "string \<Rightarrow> string" where
  "DirName p =
     (if CHR ''/'' \<notin> set p then ''.''
      else let d = rev (drop 1 (dropWhile (\<lambda>c. c \<noteq> CHR ''/'') (rev p)))
           in if d = [] then ''/'' else d)"

definition Abs :: "string \<Rightarrow> string option" where
  "Abs p = Some p"

fun has_dotdot :: "string \<Rightarrow> bool" where
  "has_dotdot (a # b # cs) = ((a = CHR ''.'' \<and> b = CHR ''.'') \<or> has_dotdot (b # cs))"
| "has_dotdot _ = False"

text \<open>
  What the operating system and the libraries decide is a parameter of the model: the
  clock, the gzip codec, and which writes, directory creations, renames and timestamp
  changes fail. A failed \<open>os.WriteFile\<close> leaves at its path whatever \<open>env_partial\<close> says.
\<close>

record os_env =
  env_now :: int
  env_compress :: "byte list \<Rightarrow> byte list option"
  env_decompress :: "byte list \<Rightarrow> byte list option"
  env_write_fails :: "string \<Rightarrow> bool"
  env_partial :: "string \<Rightarrow> byte list option"
  env_mkdir_fails :: "string \<Rightarrow> bool"
  env_rename_fails :: bool
  env_chtimes_fails :: "string \<Rightarrow> bool"

text \<open>internal/utils/filesystem.go\<close>

definition ValidatePath :: "string \<Rightarrow> error + unit" where
  "ValidatePath path =
     (if path = [] then Inl ErrPathEmpty
      else (case Abs path of
              None \<Rightarrow> Inl ErrInvalidPath
            | Some absPath \<Rightarrow> if has_dotdot absPath then Inl ErrTraversal else Inr ()))"

definition EnsureDirectoryExists :: "os_env \<Rightarrow> string \<Rightarrow> error + unit" where
  "EnsureDirectoryExists env dirPath =
     (case ValidatePath dirPath of
        Inl e \<Rightarrow> Inl e
      | Inr u \<Rightarrow> if env_mkdir_fails env dirPath then Inl ErrMkdir else Inr ())"

section \<open>Metadata catalog (internal/metadata)\<close>

text \<open>
  The backup directory holds the chunk files, the catalog file \<open>metadata.json\<close> and its
  temporary sibling. The JSON encoding is abstracted: a catalog file holds a catalog, or
  bytes that do not parse. The watched tree, the backup directory and the restore target
  are separate stores.
\<close>

datatype catfile = Absent | Garbage | Stored BackupMetadata

record backup_dir =
  bd_files :: "string \<rightharpoonup> byte list"
  bd_catalog :: catfile
  bd_tmp :: catfile

definition NewManager :: "int \<Rightarrow> BackupMetadata" where
  "NewManager now =
     \<lparr>md_Version = ''1.0'', md_CreatedAt = now, md_UpdatedAt = 0,
      md_Files = Map.empty, md_Chunks = []\<rparr>"

definition LoadMetadata :: "BackupMetadata \<Rightarrow> backup_dir \<Rightarrow> error + BackupMetadata" where
  "LoadMetadata m disk =
     (case bd_catalog disk of
        Absent \<Rightarrow> Inr m
      | Garbage \<Rightarrow> Inl ErrUnmarshal
      | Stored c \<Rightarrow> Inr c)"

definition SaveMetadata ::
    "os_env \<Rightarrow> string \<Rightarrow> BackupMetadata \<Rightarrow> backup_dir
       \<Rightarrow> (error + unit) \<times> BackupMetadata \<times> backup_dir" where
  "SaveMetadata env backupPath m disk =
     (case EnsureDirectoryExists env backupPath of
        Inl e \<Rightarrow> (Inl e, m, disk)
      | Inr u \<Rightarrow>
          let m' = m\<lparr>md_UpdatedAt := env_now env\<rparr>;
              tempPath = Join backupPath ''metadata.json'' @ ''.tmp''
          in if env_write_fails env tempPath
             then (Inl ErrSaveTmp, m', disk\<lparr>bd_tmp := Garbage\<rparr>)
             else if env_rename_fails env
             then (Inl ErrSaveRename, m', disk\<lparr>bd_tmp := Stored m'\<rparr>)
             else (Inr (), m', disk\<lparr>bd_tmp := Absent, bd_catalog := Stored m'\<rparr>))"

definition GetFileInfo :: "BackupMetadata \<Rightarrow> string \<Rightarrow> FileInfo option" where
  "GetFileInfo m path = md_Files m path"

definition UpdateFileInfo :: "BackupMetadata \<Rightarrow> string \<Rightarrow> FileInfo \<Rightarrow> BackupMetadata" where
  "UpdateFileInfo m path info = m\<lparr>md_Files := (md_Files m)(path \<mapsto> info)\<rparr>"

definition MarkFileDeleted :: "BackupMetadata \<Rightarrow> string \<Rightarrow> BackupMetadata" where
  "MarkFileDeleted m path =
     (case md_Files m path of
        Some info \<Rightarrow> m\<lparr>md_Files := (md_Files m)(path \<mapsto> info\<lparr>fi_IsDeleted := True\<rparr>)\<rparr>
      | None \<Rightarrow> m)"

definition AddChunk :: "BackupMetadata \<Rightarrow> ChunkInfo \<Rightarrow> BackupMetadata" where
  "AddChunk m chunk = m\<lparr>md_Chunks := md_Chunks m @ [chunk]\<rparr>"

text \<open>
  \<open>DetectChanges\<close>. The walk callback fills \<open>currentFiles\<close>; an entry reported with an
  error, a directory, a path that \<open>Rel\<close> rejects and a file that cannot be hashed are
  skipped. Go visits the keys of a map in an unspecified order: the two \<open>range\<close>
  loops take the order of their visit as the lists \<open>ord1\<close> and \<open>ord2\<close>. Each iteration
  has its own \<open>currentInfo\<close>, so the pointer stored in a change is to that iteration's value.
\<close>

definition walk_visit ::
    "(byte list \<Rightarrow> string) \<Rightarrow> string \<Rightarrow> tree \<Rightarrow> (string \<rightharpoonup> FileInfo) \<Rightarrow> string \<times> fsnode
       \<Rightarrow> (string \<rightharpoonup> FileInfo)" where
  "walk_visit H watchPath t cur e =
     (case snd e of
        WalkErr \<Rightarrow> cur
      | Dir \<Rightarrow> cur
      | File d mt r \<Rightarrow>
          (case Rel watchPath (fst e) of
             None \<Rightarrow> cur
           | Some relPath \<Rightarrow>
               (case CalculateFileHash H t (fst e) of
                  None \<Rightarrow> cur
                | Some hash \<Rightarrow>
                    cur(relPath \<mapsto> \<lparr>fi_Path = relPath, fi_Size = int (length d), fi_ModTime = mt,
                                    fi_Hash = hash, fi_ChunkRefs = [], fi_IsDeleted = False\<rparr>))))"

definition currentFiles :: "(byte list \<Rightarrow> string) \<Rightarrow> string \<Rightarrow> tree \<Rightarrow> (string \<rightharpoonup> FileInfo)" where
  "currentFiles H watchPath t = foldl (walk_visit H watchPath t) Map.empty t"

definition new_or_modified ::
    "(string \<rightharpoonup> FileInfo) \<Rightarrow> (string \<rightharpoonup> FileInfo) \<Rightarrow> string \<Rightarrow> FileChange list" where
  "new_or_modified cur stored path =
     (case cur path of
        None \<Rightarrow> []
      | Some currentInfo \<Rightarrow>
          (case stored path of
             Some storedInfo \<Rightarrow>
               if \<not> fi_IsDeleted storedInfo \<and>
                  (fi_Hash storedInfo \<noteq> fi_Hash currentInfo \<or>
                   fi_ModTime storedInfo \<noteq> fi_ModTime currentInfo)
               then [\<lparr>fc_Path = path, fc_Operation = ''MODIFY'', fc_FileInfo = Some currentInfo\<rparr>]
               else []
           | None \<Rightarrow>
               [\<lparr>fc_Path = path, fc_Operation = ''CREATE'', fc_FileInfo = Some currentInfo\<rparr>]))"

definition deleted_change ::
    "(string \<rightharpoonup> FileInfo) \<Rightarrow> (string \<rightharpoonup> FileInfo) \<Rightarrow> string \<Rightarrow> FileChange list" where
  "deleted_change cur stored path =
     (case stored path of
        None \<Rightarrow> []
      | Some storedInfo \<Rightarrow>
          if \<not> fi_IsDeleted storedInfo
          then (if cur path = None
                then [\<lparr>fc_Path = path, fc_Operation = ''DELETE'', fc_FileInfo = None\<rparr>]
                else [])
          else [])"

definition DetectChanges ::
    "(byte list \<Rightarrow> string) \<Rightarrow> string \<Rightarrow> tree \<Rightarrow> BackupMetadata \<Rightarrow> string list \<Rightarrow> string list
       \<Rightarrow> FileChange list" where
  "DetectChanges H watchPath t m ord1 ord2 =
     (let cur = currentFiles H watchPath t
      in concat (map (new_or_modified cur (md_Files m)) ord1) @
         concat (map (deleted_change cur (md_Files m)) ord2))"

text \<open>A list is a visiting order of a map when it holds each key once.\<close>

definition range_order :: "('k \<rightharpoonup> 'v) \<Rightarrow> 'k list \<Rightarrow> bool" where
  "range_order m ks \<longleftrightarrow> distinct ks \<and> set ks = dom m"


section \<open>Backup orchestrator (internal/backup/engine.go)\<close>

record Engine =
  e_watchPath :: string
  e_backupPath :: string
  e_metadata :: BackupMetadata
  e_chunkID :: int

definition NewEngine :: "int \<Rightarrow> string \<Rightarrow> string \<Rightarrow> Engine" where
  "NewEngine now watchPath backupPath =
     \<lparr>e_watchPath = watchPath, e_backupPath = backupPath,
      e_metadata = NewManager now, e_chunkID = NewChunker\<rparr>"

definition Initialize :: "os_env \<Rightarrow> Engine \<Rightarrow> backup_dir \<Rightarrow> error + Engine" where
  "Initialize env e disk =
     (case EnsureDirectoryExists env (e_backupPath e) of
        Inl err \<Rightarrow> Inl err
      | Inr u \<Rightarrow>
          (case LoadMetadata (e_metadata e) disk of
             Inl err \<Rightarrow> Inl err
           | Inr m \<Rightarrow> Inr (e\<lparr>e_metadata := m\<rparr>)))"

text \<open>
  \<open>fmt.Sprintf("chunk_%06d.gz", id)\<close>: the decimal digits of the number, padded with
  zeros to six characters, the sign of a negative number counting as one of them.
\<close>

definition digit_char :: "nat \<Rightarrow> char" where
  "digit_char d = char_of (48 + d)"

fun digits :: "nat \<Rightarrow> string" where
  "digits n = (if n < 10 then [digit_char n] else digits (n div 10) @ [digit_char (n mod 10)])"

declare digits.simps [simp del]

definition zero_pad :: "nat \<Rightarrow> string \<Rightarrow> string" where
  "zero_pad w s = replicate (w - length s) (CHR ''0'') @ s"

definition fmt_06d :: "int \<Rightarrow> string" where
  "fmt_06d i = (if i < 0 then CHR ''-'' # zero_pad 5 (digits (nat (- i)))
                else zero_pad 6 (digits (nat i)))"

definition chunk_filename :: "int \<Rightarrow> string" where
  "chunk_filename i = ''chunk_'' @ fmt_06d i @ ''.gz''"

text \<open>The first loop of \<open>handleChanges\<close>: one change, on the paths to back up and the catalog.\<close>

definition classify ::
    "string \<Rightarrow> string list \<times> BackupMetadata \<Rightarrow> FileChange \<Rightarrow> string list \<times> BackupMetadata" where
  "classify watchPath acc change =
     (if fc_Operation change = ''CREATE'' \<or> fc_Operation change = ''MODIFY''
      then (case fc_FileInfo change of
              None \<Rightarrow> acc
            | Some info \<Rightarrow>
                (fst acc @ [Join watchPath (fc_Path change)],
                 UpdateFileInfo (snd acc) (fc_Path change) info))
      else if fc_Operation change = ''DELETE''
      then (fst acc, MarkFileDeleted (snd acc) (fc_Path change))
      else acc)"

text \<open>The inner loop of \<open>createBackupChunks\<close>: the chunk reference of one packed file.\<close>

definition add_chunk_ref :: "string \<Rightarrow> int \<Rightarrow> BackupMetadata \<Rightarrow> ChunkFileInfo \<Rightarrow> BackupMetadata" where
  "add_chunk_ref watchPath chunkID m fileInfo =
     (let relPath = (case Rel watchPath (cf_Path fileInfo) of None \<Rightarrow> [] | Some r \<Rightarrow> r)
      in case GetFileInfo m relPath of
           None \<Rightarrow> m
         | Some storedInfo \<Rightarrow>
             UpdateFileInfo m relPath
               (storedInfo\<lparr>fi_ChunkRefs := fi_ChunkRefs storedInfo @ [chunkID]\<rparr>))"

text \<open>One iteration of the loop over the chunks: compress, write, catalog.\<close>

definition store_chunk ::
    "os_env \<Rightarrow> string \<Rightarrow> string \<Rightarrow> BackupMetadata \<times> backup_dir \<Rightarrow> ChunkData
       \<Rightarrow> (error + unit) \<times> BackupMetadata \<times> backup_dir" where
  "store_chunk env watchPath backupPath st chunk =
     (case env_compress env (cd_Data chunk) of
        None \<Rightarrow> (Inl (ErrCompress (cd_ID chunk)), st)
      | Some compressed \<Rightarrow>
          let chunkFilename = chunk_filename (cd_ID chunk);
              chunkPath = Join backupPath chunkFilename;
              m = fst st; disk = snd st
          in if env_write_fails env chunkPath
             then (Inl ErrWriteChunk, m,
                   disk\<lparr>bd_files := (bd_files disk)(chunkPath := env_partial env chunkPath)\<rparr>)
             else
               let chunkInfo = \<lparr>ci_ID = cd_ID chunk, ci_Filename = chunkFilename,
                                ci_Size = int (length (cd_Data chunk)), ci_Hash = cd_Hash chunk,
                                ci_CompressedSize = int (length compressed)\<rparr>
               in (Inr (),
                   foldl (add_chunk_ref watchPath (cd_ID chunk)) (AddChunk m chunkInfo)
                     (cd_Files chunk),
                   disk\<lparr>bd_files := (bd_files disk)(chunkPath \<mapsto> compressed)\<rparr>))"

fun store_chunks ::
    "os_env \<Rightarrow> string \<Rightarrow> string \<Rightarrow> BackupMetadata \<times> backup_dir \<Rightarrow> ChunkData list
       \<Rightarrow> (error + unit) \<times> BackupMetadata \<times> backup_dir" where
  "store_chunks env watchPath backupPath st [] = (Inr (), st)"
| "store_chunks env watchPath backupPath st (chunk # chunks) =
     (case store_chunk env watchPath backupPath st chunk of
        (Inl err, st') \<Rightarrow> (Inl err, st')
      | (Inr u, st') \<Rightarrow> store_chunks env watchPath backupPath st' chunks)"

definition createBackupChunks ::
    "(byte list \<Rightarrow> string) \<Rightarrow> tree \<Rightarrow> os_env \<Rightarrow> Engine \<Rightarrow> backup_dir \<Rightarrow> string list
       \<Rightarrow> (error + unit) \<times> Engine \<times> backup_dir" where
  "createBackupChunks H t env e disk files =
     (let (chunks, c') = CreateChunks H t (e_chunkID e) files;
          (res, m', disk') =
             store_chunks env (e_watchPath e) (e_backupPath e) (e_metadata e, disk) chunks
      in (res, e\<lparr>e_metadata := m', e_chunkID := c'\<rparr>, disk'))"

definition handleChanges ::
    "(byte list \<Rightarrow> string) \<Rightarrow> tree \<Rightarrow> os_env \<Rightarrow> Engine \<Rightarrow> backup_dir \<Rightarrow> FileChange list
       \<Rightarrow> (error + unit) \<times> Engine \<times> backup_dir" where
  "handleChanges H t env e disk changes =
     (let (filesToBackup, m1) = foldl (classify (e_watchPath e)) ([], e_metadata e) changes;
          e1 = e\<lparr>e_metadata := m1\<rparr>;
          save = (\<lambda>e2 disk2.
             case SaveMetadata env (e_backupPath e2) (e_metadata e2) disk2 of
               (res, m3, disk3) \<Rightarrow> (res, e2\<lparr>e_metadata := m3\<rparr>, disk3))
      in if filesToBackup \<noteq> []
         then (case createBackupChunks H t env e1 disk filesToBackup of
                 (Inl err, e2, disk2) \<Rightarrow> (Inl (ErrCreateBackupChunks err), e2, disk2)
               | (Inr u, e2, disk2) \<Rightarrow> save e2 disk2)
         else save e1 disk)"

definition PerformFullBackup ::
    "(byte list \<Rightarrow> string) \<Rightarrow> tree \<Rightarrow> os_env \<Rightarrow> string list \<Rightarrow> string list \<Rightarrow> Engine
       \<Rightarrow> backup_dir \<Rightarrow> (error + unit) \<times> Engine \<times> backup_dir" where
  "PerformFullBackup H t env ord1 ord2 e disk =
     handleChanges H t env e disk
       (DetectChanges H (e_watchPath e) t (e_metadata e) ord1 ord2)"

section \<open>Restore engine (internal/restore)\<close>

text \<open>A restored file is its bytes and its modification time.\<close>

type_synonym target = "string \<rightharpoonup> byte list \<times> int"

fun ValidateBackup :: "string \<Rightarrow> backup_dir \<Rightarrow> ChunkInfo list \<Rightarrow> error + unit" where
  "ValidateBackup backupPath disk [] = Inr ()"
| "ValidateBackup backupPath disk (chunk # chunks) =
     (if bd_files disk (Join backupPath (ci_Filename chunk)) = None
      then Inl (ErrChunkMissing (ci_Filename chunk))
      else ValidateBackup backupPath disk chunks)"

definition chunk_map :: "ChunkInfo list \<Rightarrow> (int \<rightharpoonup> ChunkInfo)" where
  "chunk_map chunks = foldl (\<lambda>m chunk. m(ci_ID chunk \<mapsto> chunk)) Map.empty chunks"

text \<open>The loop of \<open>restoreFile\<close> over \<open>ChunkRefs\<close>: the whole payload of each chunk is appended.\<close>

fun read_chunks ::
    "(byte list \<Rightarrow> string) \<Rightarrow> os_env \<Rightarrow> string \<Rightarrow> backup_dir \<Rightarrow> (int \<rightharpoonup> ChunkInfo)
       \<Rightarrow> byte list \<Rightarrow> int list \<Rightarrow> error + byte list" where
  "read_chunks H env backupPath disk chunkMap fileData [] = Inr fileData"
| "read_chunks H env backupPath disk chunkMap fileData (chunkID # refs) =
     (case chunkMap chunkID of
        None \<Rightarrow> Inl (ErrChunkNotFound chunkID)
      | Some chunkInfo \<Rightarrow>
          (case bd_files disk (Join backupPath (ci_Filename chunkInfo)) of
             None \<Rightarrow> Inl ErrReadChunk
           | Some compressedData \<Rightarrow>
               (case env_decompress env compressedData of
                  None \<Rightarrow> Inl ErrDecompress
                | Some chunkData \<Rightarrow>
                    if CalculateDataHash H chunkData \<noteq> ci_Hash chunkInfo
                    then Inl (ErrChunkHash chunkID)
                    else read_chunks H env backupPath disk chunkMap (fileData @ chunkData) refs)))"

definition restoreFile ::
    "(byte list \<Rightarrow> string) \<Rightarrow> os_env \<Rightarrow> string \<Rightarrow> string \<Rightarrow> backup_dir \<Rightarrow> target
       \<Rightarrow> FileInfo \<Rightarrow> (int \<rightharpoonup> ChunkInfo) \<Rightarrow> (error + unit) \<times> target" where
  "restoreFile H env backupPath targetPath disk tgt fileInfo chunkMap =
     (let targetFilePath = Join targetPath (fi_Path fileInfo)
      in case EnsureDirectoryExists env (DirName targetFilePath) of
           Inl err \<Rightarrow> (Inl err, tgt)
         | Inr u \<Rightarrow>
             (case read_chunks H env backupPath disk chunkMap [] (fi_ChunkRefs fileInfo) of
                Inl err \<Rightarrow> (Inl err, tgt)
              | Inr fileData \<Rightarrow>
                  if env_write_fails env targetFilePath
                  then (Inl ErrWriteRestored,
                        tgt(targetFilePath :=
                              map_option (\<lambda>d. (d, env_now env)) (env_partial env targetFilePath)))
                  else if env_chtimes_fails env targetFilePath
                  then (Inr (), tgt(targetFilePath \<mapsto> (fileData, env_now env)))
                  else (Inr (), tgt(targetFilePath \<mapsto> (fileData, fi_ModTime fileInfo)))))"

text \<open>
  \<open>RestoreAll\<close> on the catalog \<open>meta\<close>; \<open>ord\<close> is the order in which the \<open>range\<close> loop
  visits \<open>meta.Files\<close>.
\<close>

definition restore_one ::
    "(byte list \<Rightarrow> string) \<Rightarrow> os_env \<Rightarrow> string \<Rightarrow> string \<Rightarrow> backup_dir \<Rightarrow> BackupMetadata
       \<Rightarrow> target \<Rightarrow> string \<Rightarrow> target" where
  "restore_one H env backupPath targetPath disk meta tgt path =
     (case md_Files meta path of
        None \<Rightarrow> tgt
      | Some fileInfo \<Rightarrow>
          if fi_IsDeleted fileInfo then tgt
          else snd (restoreFile H env backupPath targetPath disk tgt fileInfo
                      (chunk_map (md_Chunks meta))))"

definition RestoreAll ::
    "(byte list \<Rightarrow> string) \<Rightarrow> os_env \<Rightarrow> string \<Rightarrow> string \<Rightarrow> backup_dir \<Rightarrow> BackupMetadata
       \<Rightarrow> target \<Rightarrow> string list \<Rightarrow> (error + unit) \<times> target" where
  "RestoreAll H env backupPath targetPath disk meta tgt ord =
     (case ValidateBackup backupPath disk (md_Chunks meta) of
        Inl err \<Rightarrow> (Inl err, tgt)
      | Inr u \<Rightarrow>
          (Inr (), foldl (restore_one H env backupPath targetPath disk meta) tgt ord))"


section \<open>Change coordinator (internal/watcher)\<close>

text \<open>
  An \<open>fsnotify.Event\<close> is a name and a bit mask of operations (\<open>Create\<close> = 1,
  \<open>Write\<close> = 2, \<open>Remove\<close> = 4, \<open>Rename\<close> = 8, \<open>Chmod\<close> = 16).
\<close>

type_synonym Op = "32 word"

definition Create :: Op where "Create = 1"
definition Write :: Op where "Write = 2"
definition Remove :: Op where "Remove = 4"
definition Rename :: Op where "Rename = 8"
definition Chmod :: Op where "Chmod = 16"

record Event =
  ev_Name :: string
  ev_Op :: Op

record FileEvent =
  fe_Path :: string
  fe_Operation :: string
  fe_Timestamp :: nat

text \<open>
  Time is counted in milliseconds. A \<open>*time.Timer\<close> made by \<open>time.AfterFunc\<close> is an
  identity, the path its closure captured, its deadline and the event captured by the
  closure \<open>fn\<close>.
\<close>

record timer =
  tm_id :: nat
  tm_path :: string
  tm_deadline :: nat
  tm_event :: Event

text \<open>
  The watcher's state. \<open>w_debouncer\<close> is the map \<open>debouncer\<close>, from a path to the timer
  filed under it; an entry stays until a callback deletes it, also after its timer has
  fired. \<open>w_armed\<close> are the timers the runtime still holds, in the order of arming. A
  timer that has fired runs its callback in a goroutine of its own: \<open>w_sending\<close> are the
  callbacks that wait in the send on \<open>changeChan\<close>, each with the path it will delete and
  the event it offers, and \<open>w_returning\<close> the callbacks whose \<open>fn\<close> has returned and that
  have not yet taken \<open>debounceMu\<close> to delete the map entry of their path. \<open>changeChan\<close>
  is unbuffered: \<open>w_changeChan\<close> are the events its consumer has received so far.
  \<open>w_created\<close> counts the timers made. The periodic full scan, which sends its own
  events on the same channel, and the cancellation of the context are left out.
\<close>

record Watcher =
  w_debouncer :: "string \<rightharpoonup> nat"
  w_armed :: "timer list"
  w_sending :: "(string \<times> FileEvent) list"
  w_returning :: "string list"
  w_changeChan :: "FileEvent list"
  w_created :: nat

definition NewWatcher :: Watcher where
  "NewWatcher = \<lparr>w_debouncer = Map.empty, w_armed = [], w_sending = [], w_returning = [],
                 w_changeChan = [], w_created = 0\<rparr>"

text \<open>The \<open>switch\<close> of the closure in \<open>processEvent\<close>; the default case sends nothing.\<close>

definition operation_of :: "Event \<Rightarrow> string option" where
  "operation_of event =
     (if ev_Op event AND Create = Create then Some ''CREATE''
      else if ev_Op event AND Write = Write then Some ''MODIFY''
      else if ev_Op event AND Remove = Remove then Some ''DELETE''
      else None)"

text \<open>
  \<open>timer.Stop()\<close> takes the timer from the runtime when it has not fired yet; on a timer
  that has fired it does nothing, and the callback goes on.
\<close>

definition Stop :: "Watcher \<Rightarrow> nat \<Rightarrow> Watcher" where
  "Stop w i = w\<lparr>w_armed := filter (\<lambda>tm. tm_id tm \<noteq> i) (w_armed w)\<rparr>"

text \<open>
  \<open>debouncedSend\<close>, under \<open>debounceMu\<close>: the timer filed under the path, if any, is
  stopped, and a new one, due 500 ms from now, is armed and filed under the path.
\<close>

definition debouncedSend :: "Watcher \<Rightarrow> nat \<Rightarrow> string \<Rightarrow> Event \<Rightarrow> Watcher" where
  "debouncedSend w now path event =
     (let w1 = (case w_debouncer w path of None \<Rightarrow> w | Some i \<Rightarrow> Stop w i)
      in w1\<lparr>w_armed := w_armed w1 @
                [\<lparr>tm_id = w_created w, tm_path = path, tm_deadline = now + 500,
                  tm_event = event\<rparr>],
             w_debouncer := (w_debouncer w)(path \<mapsto> w_created w),
             w_created := w_created w + 1\<rparr>)"

definition processEvent :: "Watcher \<Rightarrow> nat \<Rightarrow> Event \<Rightarrow> Watcher" where
  "processEvent w now event = debouncedSend w now (ev_Name event) event"

text \<open>
  The runtime fires an armed timer, not before its deadline: the callback starts and runs
  \<open>fn\<close>, which returns at once in the default case of the \<open>switch\<close> and otherwise builds
  the event, stamped with the current time, and waits in the send.
\<close>

definition fire :: "Watcher \<Rightarrow> nat \<Rightarrow> timer \<Rightarrow> Watcher" where
  "fire w now tm =
     (if tm \<in> set (w_armed w) \<and> tm_deadline tm \<le> now
      then (case operation_of (tm_event tm) of
              None \<Rightarrow> w\<lparr>w_armed := remove1 tm (w_armed w),
                         w_returning := w_returning w @ [tm_path tm]\<rparr>
            | Some operation \<Rightarrow>
                w\<lparr>w_armed := remove1 tm (w_armed w),
                  w_sending := w_sending w @
                    [(tm_path tm, \<lparr>fe_Path = ev_Name (tm_event tm), fe_Operation = operation,
                                   fe_Timestamp = now\<rparr>)]\<rparr>)
      else w)"

text \<open>The consumer of \<open>changeChan\<close> receives from a waiting callback, whose \<open>fn\<close> returns.\<close>

definition receive :: "Watcher \<Rightarrow> string \<times> FileEvent \<Rightarrow> Watcher" where
  "receive w cb =
     (if cb \<in> set (w_sending w)
      then w\<lparr>w_sending := remove1 cb (w_sending w),
             w_changeChan := w_changeChan w @ [snd cb],
             w_returning := w_returning w @ [fst cb]\<rparr>
      else w)"

text \<open>
  A callback whose \<open>fn\<close> has returned takes \<open>debounceMu\<close> and deletes whatever is filed
  under its path.
\<close>

definition finish :: "Watcher \<Rightarrow> string \<Rightarrow> Watcher" where
  "finish w path =
     (if path \<in> set (w_returning w)
      then w\<lparr>w_returning := remove1 path (w_returning w),
             w_debouncer := (w_debouncer w)(path := None)\<rparr>
      else w)"

text \<open>
  A schedule lists what happens and when: the handler processes a notification, the
  runtime fires a timer, the consumer receives from a callback, a callback deletes its
  map entry. A step that cannot happen in the state leaves it as it is.
\<close>

datatype action = Notify Event | Fire timer | Receive "string \<times> FileEvent" | Return string

fun step :: "Watcher \<Rightarrow> nat \<times> action \<Rightarrow> Watcher" where
  "step w (now, Notify event) = processEvent w now event"
| "step w (now, Fire tm) = fire w now tm"
| "step w (now, Receive cb) = receive w cb"
| "step w (now, Return path) = finish w path"

definition run :: "Watcher \<Rightarrow> (nat \<times> action) list \<Rightarrow> Watcher" where
  "run w sch = foldl step w sch"

section \<open>Notions used in the statements and the proofs\<close>

text \<open>
  The per-file ranges of a chunk tile its bytes: they follow each other from the given
  offset to the end, and each holds the content and the digest of its file. A packer state
  is tiled when the chunk in progress and every sealed chunk are.
\<close>

fun tiles ::
    "(byte list \<Rightarrow> string) \<Rightarrow> tree \<Rightarrow> byte list \<Rightarrow> int \<Rightarrow> ChunkFileInfo list \<Rightarrow> bool" where
  "tiles H t data off [] = (off = int (length data))"
| "tiles H t data off (f # fs) =
     (cf_Offset f = off \<and> 0 \<le> cf_Size f \<and> off + cf_Size f \<le> int (length data) \<and>
      H (take (nat (cf_Size f)) (drop (nat off) data)) = cf_Hash f \<and>
      ReadFile t (cf_Path f) = Some (take (nat (cf_Size f)) (drop (nat off) data)) \<and>
      tiles H t data (off + cf_Size f) fs)"

definition pack_tiled :: "(byte list \<Rightarrow> string) \<Rightarrow> tree \<Rightarrow> pack_state \<Rightarrow> bool" where
  "pack_tiled H t s \<longleftrightarrow>
     tiles H t (cd_Data (ps_current s)) 0 (cd_Files (ps_current s)) \<and>
     (\<forall>ch \<in> set (ps_chunks s). cd_Files ch \<noteq> [] \<and> tiles H t (cd_Data ch) 0 (cd_Files ch))"


definition file_entry :: "(byte list \<Rightarrow> string) \<Rightarrow> string \<Rightarrow> int \<Rightarrow> byte list \<Rightarrow> ChunkFileInfo" where
  "file_entry H p off d = \<lparr>cf_Path = p, cf_Offset = off, cf_Size = int (length d), cf_Hash = H d\<rparr>"



definition ids_ok :: "int \<Rightarrow> pack_state \<Rightarrow> bool" where
  "ids_ok lo s \<longleftrightarrow>
     sorted_wrt (<) (map cd_ID (ps_chunks s)) \<and>
     (\<forall>ch \<in> set (ps_chunks s). lo \<le> cd_ID ch \<and> cd_ID ch < cd_ID (ps_current s)) \<and>
     lo \<le> cd_ID (ps_current s) \<and> cd_ID (ps_current s) < ps_chunkID s"

text \<open>
  What reconcile reads of a record: digest, modification time and tombstone. A walked
  path is settled when its record is tombstoned or agrees with the walk; an unwalked path
  is gone when it has no live record. A change comes from a walk when it is a DELETE of
  an unwalked path or a CREATE or MODIFY that carries the walked record of its path.
\<close>

definition marks :: "BackupMetadata \<Rightarrow> string \<Rightarrow> (string \<times> int \<times> bool) option" where
  "marks m p = map_option (\<lambda>s. (fi_Hash s, fi_ModTime s, fi_IsDeleted s)) (md_Files m p)"

definition settled :: "FileInfo \<Rightarrow> BackupMetadata \<Rightarrow> string \<Rightarrow> bool" where
  "settled c m p \<longleftrightarrow>
     (\<exists>s. md_Files m p = Some s \<and>
          (fi_IsDeleted s \<or> (fi_Hash s = fi_Hash c \<and> fi_ModTime s = fi_ModTime c)))"

definition gone :: "BackupMetadata \<Rightarrow> string \<Rightarrow> bool" where
  "gone m p \<longleftrightarrow> (case md_Files m p of None \<Rightarrow> True | Some s \<Rightarrow> fi_IsDeleted s)"

definition from_walk :: "(string \<rightharpoonup> FileInfo) \<Rightarrow> FileChange \<Rightarrow> bool" where
  "from_walk cur ch \<longleftrightarrow>
     (fc_Operation ch = ''DELETE'' \<and> cur (fc_Path ch) = None) \<or>
     ((fc_Operation ch = ''CREATE'' \<or> fc_Operation ch = ''MODIFY'') \<and>
      (\<exists>c. fc_FileInfo ch = Some c \<and> cur (fc_Path ch) = Some c))"

text \<open>The number that a string of decimal digits denotes.\<close>

definition undigits :: "string \<Rightarrow> nat" where
  "undigits s = foldl (\<lambda>a c. 10 * a + (of_char c - 48)) 0 s"

text \<open>
  The paths a batch hands to the packer, the chunks the packer makes of them, the file of
  a chunk in the backup directory, and whether the environment lets a chunk be compressed
  and written.
\<close>

definition filesToBackup :: "Engine \<Rightarrow> FileChange list \<Rightarrow> string list" where
  "filesToBackup e changes = fst (foldl (classify (e_watchPath e)) ([], e_metadata e) changes)"

definition batch_chunks ::
    "(byte list \<Rightarrow> string) \<Rightarrow> tree \<Rightarrow> Engine \<Rightarrow> FileChange list \<Rightarrow> ChunkData list" where
  "batch_chunks H t e changes = fst (CreateChunks H t (e_chunkID e) (filesToBackup e changes))"

definition chunk_path :: "string \<Rightarrow> ChunkData \<Rightarrow> string" where
  "chunk_path b chunk = Join b (chunk_filename (cd_ID chunk))"

definition store_ok :: "os_env \<Rightarrow> string \<Rightarrow> ChunkData \<Rightarrow> bool" where
  "store_ok env b chunk \<longleftrightarrow>
     env_compress env (cd_Data chunk) \<noteq> None \<and> \<not> env_write_fails env (chunk_path b chunk)"

text \<open>
  The chunk IDs of an engine are in order when the IDs in the chunk list increase
  strictly and lie below the packer's counter.
\<close>

definition chunk_ids_ok :: "Engine \<Rightarrow> bool" where
  "chunk_ids_ok e \<longleftrightarrow>
     0 \<le> e_chunkID e \<and>
     sorted_wrt (<) (map ci_ID (md_Chunks (e_metadata e))) \<and>
     (\<forall>c \<in> set (md_Chunks (e_metadata e)). ci_ID c < e_chunkID e)"

text \<open>
  For the watcher, per path: the armed timers, the callbacks waiting to send, the
  callbacks about to delete the map entry, and the events received. A path is idle when
  it has no armed timer and no callback running; a timer is pending for it when it is the
  only armed timer of the path, is the one filed under the path, and no callback of the
  path is running.
\<close>

definition armed_for :: "string \<Rightarrow> Watcher \<Rightarrow> timer list" where
  "armed_for p w = filter (\<lambda>tm. tm_path tm = p) (w_armed w)"

definition sending_for :: "string \<Rightarrow> Watcher \<Rightarrow> (string \<times> FileEvent) list" where
  "sending_for p w = filter (\<lambda>cb. fst cb = p) (w_sending w)"

definition returning_for :: "string \<Rightarrow> Watcher \<Rightarrow> string list" where
  "returning_for p w = filter (\<lambda>q. q = p) (w_returning w)"

definition sent_for :: "string \<Rightarrow> Watcher \<Rightarrow> FileEvent list" where
  "sent_for p w = filter (\<lambda>e. fe_Path e = p) (w_changeChan w)"

definition idle :: "string \<Rightarrow> Watcher \<Rightarrow> bool" where
  "idle p w \<longleftrightarrow> armed_for p w = [] \<and> sending_for p w = [] \<and> returning_for p w = []"

definition pending :: "string \<Rightarrow> timer \<Rightarrow> Watcher \<Rightarrow> bool" where
  "pending p tm w \<longleftrightarrow>
     armed_for p w = [tm] \<and> w_debouncer w p = Some (tm_id tm) \<and>
     sending_for p w = [] \<and> returning_for p w = []"

text \<open>
  A schedule is a burst for a path, whose pending timer is due at \<open>d\<close>, when each of its
  steps happens before the deadline of the path's timer at that moment, so less than
  500 ms after the path's latest notification, and every notification of the path carries
  one of the flags \<open>Create\<close>, \<open>Write\<close> and \<open>Remove\<close>. The last notification of a path
  in a schedule. A schedule is silent for a path when it has no notification of it.
\<close>

fun burst :: "string \<Rightarrow> nat option \<Rightarrow> (nat \<times> action) list \<Rightarrow> bool" where
  "burst p d [] = True"
| "burst p d ((now, Notify event) # sch) =
     ((case d of None \<Rightarrow> True | Some x \<Rightarrow> now < x) \<and>
      (if ev_Name event = p then operation_of event \<noteq> None \<and> burst p (Some (now + 500)) sch
       else burst p d sch))"
| "burst p d ((now, a) # sch) =
     ((case d of None \<Rightarrow> True | Some x \<Rightarrow> now < x) \<and> burst p d sch)"

fun last_note :: "string \<Rightarrow> (nat \<times> action) list \<Rightarrow> (nat \<times> Event) option" where
  "last_note p [] = None"
| "last_note p ((now, Notify event) # sch) =
     (case last_note p sch of
        None \<Rightarrow> (if ev_Name event = p then Some (now, event) else None)
      | Some n \<Rightarrow> Some n)"
| "last_note p ((now, a) # sch) = last_note p sch"

fun silent :: "string \<Rightarrow> (nat \<times> action) list \<Rightarrow> bool" where
  "silent p [] = True"
| "silent p ((now, Notify event) # sch) = (ev_Name event \<noteq> p \<and> silent p sch)"
| "silent p ((now, a) # sch) = silent p sch"

text \<open>
  The invariants of the proofs: during a burst the path has no callback running and its
  armed timer is that of its latest notification \<open>n\<close>, if any; after its timer has fired
  the path has no armed timer, and either the callback still offers the event or the event
  has been received once; in every state the armed timers are older than the counter and
  are filed under the name of their event, a map entry leads to timers of its own path
  only, and a waiting callback offers an event of the path it will delete.
\<close>

definition calm :: "string \<Rightarrow> (nat \<times> Event) option \<Rightarrow> Watcher \<Rightarrow> bool" where
  "calm p n w \<longleftrightarrow>
     sending_for p w = [] \<and> returning_for p w = [] \<and>
     (case n of
        None \<Rightarrow> armed_for p w = []
      | Some m \<Rightarrow>
          (\<exists>i. armed_for p w = [\<lparr>tm_id = i, tm_path = p, tm_deadline = fst m + 500,
                                     tm_event = snd m\<rparr>] \<and>
               w_debouncer w p = Some i))"

definition after_fire :: "string \<Rightarrow> FileEvent \<Rightarrow> FileEvent list \<Rightarrow> Watcher \<Rightarrow> bool" where
  "after_fire p msg old w \<longleftrightarrow>
     armed_for p w = [] \<and>
     (sending_for p w = [(p, msg)] \<and> returning_for p w = [] \<and> sent_for p w = old \<or>
      sending_for p w = [] \<and> (returning_for p w = [p] \<or> returning_for p w = []) \<and>
      sent_for p w = old @ [msg])"

definition consistent :: "Watcher \<Rightarrow> bool" where
  "consistent w \<longleftrightarrow>
     (\<forall>tm \<in> set (w_armed w). tm_id tm < w_created w \<and> ev_Name (tm_event tm) = tm_path tm) \<and>
     (\<forall>q i. w_debouncer w q = Some i \<longrightarrow>
        i < w_created w \<and> (\<forall>tm \<in> set (w_armed w). tm_id tm = i \<longrightarrow> tm_path tm = q)) \<and>
     (\<forall>cb \<in> set (w_sending w). fe_Path (snd cb) = fst cb)"

section \<open>Concrete instances\<close>

text \<open>
  A digest that spells the bytes out, three trees (in the second the file \<open>u.bin\<close> can be
  stat'ed and not read), an environment in which nothing fails,
  one in which the write of the second chunk fails, and an empty backup directory.
\<close>

definition toy_hash :: "byte list \<Rightarrow> string" where
  "toy_hash bs = map (\<lambda>b. char_of (unat b)) bs"

definition big_tree :: tree where
  "big_tree = [(''w'', Dir),
     (''w/a.txt'', File (replicate 2097152 0) 5 True),
     (''w/b.txt'', File (replicate 4194304 0) 6 True),
     (''w/c.bin'', File (replicate 6291456 0) 7 True)]"


definition small_tree :: tree where
  "small_tree = [(''w'', Dir), (''w/a.txt'', File [1] 5 True), (''w/b.txt'', File [2] 6 True)]"

definition ok_env :: os_env where
  "ok_env = \<lparr>env_now = 100, env_compress = Some, env_decompress = Some,
             env_write_fails = (\<lambda>p. False), env_partial = (\<lambda>p. None),
             env_mkdir_fails = (\<lambda>p. False), env_rename_fails = False,
             env_chtimes_fails = (\<lambda>p. False)\<rparr>"

definition fail_env :: os_env where
  "fail_env = ok_env\<lparr>env_write_fails := (\<lambda>p. p = ''b/chunk_000002.gz'')\<rparr>"

definition empty_dir :: backup_dir where
  "empty_dir = \<lparr>bd_files = Map.empty, bd_catalog = Absent, bd_tmp = Absent\<rparr>"

definition no_target :: target where
  "no_target = Map.empty"

text \<open>The records of the two files of the small tree as a walk reports them, and a batch that creates both.\<close>

definition info_a :: FileInfo where
  "info_a = \<lparr>fi_Path = ''a.txt'', fi_Size = 1, fi_ModTime = 5, fi_Hash = toy_hash [1],
             fi_ChunkRefs = [], fi_IsDeleted = False\<rparr>"

definition info_b :: FileInfo where
  "info_b = \<lparr>fi_Path = ''b.txt'', fi_Size = 1, fi_ModTime = 6, fi_Hash = toy_hash [2],
             fi_ChunkRefs = [], fi_IsDeleted = False\<rparr>"

definition two_creates :: "FileChange list" where
  "two_creates =
     [\<lparr>fc_Path = ''a.txt'', fc_Operation = ''CREATE'', fc_FileInfo = Some info_a\<rparr>,
      \<lparr>fc_Path = ''b.txt'', fc_Operation = ''CREATE'', fc_FileInfo = Some info_b\<rparr>]"

text \<open>
  Catalogs: one where \<open>a.txt\<close> is tombstoned; one where \<open>b.txt\<close> differs and \<open>c.txt\<close>
  is no longer in the tree; the backup directory of an earlier run with its catalog, and
  the engine that starts on it; a catalog of two chunks, with the file of the first chunk
  missing or corrupt; the catalog and directory after the first backup of the small tree.
\<close>

definition tomb_catalog :: BackupMetadata where
  "tomb_catalog = \<lparr>md_Version = ''1.0'', md_CreatedAt = 0, md_UpdatedAt = 0,
     md_Files = [''a.txt'' \<mapsto> info_a\<lparr>fi_ChunkRefs := [1], fi_IsDeleted := True\<rparr>],
     md_Chunks = []\<rparr>"

definition mixed_catalog :: BackupMetadata where
  "mixed_catalog = \<lparr>md_Version = ''1.0'', md_CreatedAt = 0, md_UpdatedAt = 0,
     md_Files = [''b.txt'' \<mapsto> info_b\<lparr>fi_Hash := toy_hash [7], fi_ChunkRefs := [1]\<rparr>,
                 ''c.txt'' \<mapsto> \<lparr>fi_Path = ''c.txt'', fi_Size = 1, fi_ModTime = 4,
                    fi_Hash = toy_hash [3], fi_ChunkRefs = [1], fi_IsDeleted = False\<rparr>],
     md_Chunks = []\<rparr>"

definition old_catalog :: BackupMetadata where
  "old_catalog = \<lparr>md_Version = ''1.0'', md_CreatedAt = 0, md_UpdatedAt = 50,
     md_Files = [''c.txt'' \<mapsto> \<lparr>fi_Path = ''c.txt'', fi_Size = 1, fi_ModTime = 4,
                    fi_Hash = toy_hash [3], fi_ChunkRefs = [1], fi_IsDeleted = False\<rparr>],
     md_Chunks = [\<lparr>ci_ID = 1, ci_Filename = ''chunk_000001.gz'', ci_Size = 1,
                   ci_Hash = toy_hash [3], ci_CompressedSize = 1\<rparr>]\<rparr>"

definition old_dir :: backup_dir where
  "old_dir = \<lparr>bd_files = [''b/chunk_000001.gz'' \<mapsto> [3]], bd_catalog = Stored old_catalog,
              bd_tmp = Absent\<rparr>"

definition restarted :: Engine where
  "restarted = \<lparr>e_watchPath = ''w'', e_backupPath = ''b'', e_metadata = old_catalog, e_chunkID = 1\<rparr>"

definition two_chunk_catalog :: BackupMetadata where
  "two_chunk_catalog = \<lparr>md_Version = ''1.0'', md_CreatedAt = 0, md_UpdatedAt = 50,
     md_Files = [''a.txt'' \<mapsto> info_a\<lparr>fi_ChunkRefs := [1]\<rparr>,
                 ''b.txt'' \<mapsto> info_b\<lparr>fi_ChunkRefs := [2]\<rparr>],
     md_Chunks = [\<lparr>ci_ID = 1, ci_Filename = ''chunk_000001.gz'', ci_Size = 1,
                   ci_Hash = toy_hash [1], ci_CompressedSize = 1\<rparr>,
                  \<lparr>ci_ID = 2, ci_Filename = ''chunk_000002.gz'', ci_Size = 1,
                   ci_Hash = toy_hash [2], ci_CompressedSize = 1\<rparr>]\<rparr>"

definition dir_missing1 :: backup_dir where
  "dir_missing1 = \<lparr>bd_files = [''b/chunk_000002.gz'' \<mapsto> [2]],
                   bd_catalog = Stored two_chunk_catalog, bd_tmp = Absent\<rparr>"

definition dir_corrupt1 :: backup_dir where
  "dir_corrupt1 = \<lparr>bd_files = [''b/chunk_000001.gz'' \<mapsto> [9], ''b/chunk_000002.gz'' \<mapsto> [2]],
                   bd_catalog = Stored two_chunk_catalog, bd_tmp = Absent\<rparr>"

definition backed_up_catalog :: BackupMetadata where
  "backed_up_catalog = \<lparr>md_Version = ''1.0'', md_CreatedAt = 0, md_UpdatedAt = 100,
     md_Files = [''a.txt'' \<mapsto> info_a\<lparr>fi_ChunkRefs := [1]\<rparr>,
                 ''b.txt'' \<mapsto> info_b\<lparr>fi_ChunkRefs := [1]\<rparr>],
     md_Chunks = [\<lparr>ci_ID = 1, ci_Filename = ''chunk_000001.gz'', ci_Size = 2,
                   ci_Hash = toy_hash [1, 2], ci_CompressedSize = 2\<rparr>]\<rparr>"

definition backed_up_dir :: backup_dir where
  "backed_up_dir = \<lparr>bd_files = [''b/chunk_000001.gz'' \<mapsto> [1, 2]],
                    bd_catalog = Stored backed_up_catalog, bd_tmp = Absent\<rparr>"

text \<open>The engine after that first backup: its catalog holds chunk 1 and its counter is at 2.\<close>

definition backed_up :: Engine where
  "backed_up = \<lparr>e_watchPath = ''w'', e_backupPath = ''b'', e_metadata = backed_up_catalog,
                e_chunkID = 2\<rparr>"

text \<open>
  A write and a removal of the file \<open>f\<close>, five writes 100 ms apart, the timer that a
  notification arms, and the callback that offers an event of \<open>f\<close>.
\<close>

definition modify_ev :: Event where
  "modify_ev = \<lparr>ev_Name = ''f'', ev_Op = Write\<rparr>"

definition remove_ev :: Event where
  "remove_ev = \<lparr>ev_Name = ''f'', ev_Op = Remove\<rparr>"

definition five_modifies :: "(nat \<times> action) list" where
  "five_modifies = [(0, Notify modify_ev), (100, Notify modify_ev), (200, Notify modify_ev),
                    (300, Notify modify_ev), (400, Notify modify_ev)]"

definition timer_of :: "nat \<Rightarrow> nat \<Rightarrow> Event \<Rightarrow> timer" where
  "timer_of i now event =
     \<lparr>tm_id = i, tm_path = ev_Name event, tm_deadline = now + 500, tm_event = event\<rparr>"

definition message :: "string \<Rightarrow> nat \<Rightarrow> string \<times> FileEvent" where
  "message operation now =
     (''f'', \<lparr>fe_Path = ''f'', fe_Operation = operation, fe_Timestamp = now\<rparr>)"

section \<open>Properties\<close>

subsection \<open>The packer and extraction\<close>

lemma wrap64_id: "- (2 ^ 63) \<le> x \<Longrightarrow> x < 2 ^ 63 \<Longrightarrow> wrap64 x = x"
  by (simp add: wrap64_def)

lemma add64_id: "- (2 ^ 63) \<le> a + b \<Longrightarrow> a + b < 2 ^ 63 \<Longrightarrow> add64 a b = a + b"
  by (simp add: add64_def wrap64_id)

lemma tiles_append:
  "0 \<le> off \<Longrightarrow> ReadFile t p = Some d \<Longrightarrow> tiles H t data off fs \<Longrightarrow>
   tiles H t (data @ d) off
     (fs @ [\<lparr>cf_Path = p, cf_Offset = int (length data), cf_Size = int (length d), cf_Hash = H d\<rparr>])"
proof (induction fs arbitrary: off)
  case Nil
  then show ?case by simp
next
  case (Cons f fs)
  then show ?case by (auto simp: nat_add_distrib)
qed

lemma tiles_member:
  "0 \<le> off \<Longrightarrow> tiles H t data off fs \<Longrightarrow> f \<in> set fs \<Longrightarrow>
   0 \<le> cf_Offset f \<and> 0 \<le> cf_Size f \<and> cf_Offset f + cf_Size f \<le> int (length data) \<and>
   H (take (nat (cf_Size f)) (drop (nat (cf_Offset f)) data)) = cf_Hash f \<and>
   ReadFile t (cf_Path f) = Some (take (nat (cf_Size f)) (drop (nat (cf_Offset f)) data))"
proof (induction fs arbitrary: off)
  case Nil
  then show ?case by simp
next
  case (Cons g fs)
  show ?case
  proof (cases "f = g")
    case True
    with Cons.prems show ?thesis by simp
  next
    case False
    with Cons.prems have "f \<in> set fs" by simp
    moreover from Cons.prems have "0 \<le> off + cf_Size g" "tiles H t data (off + cf_Size g) fs" by simp_all
    ultimately show ?thesis using Cons.IH by blast
  qed
qed

lemma tiles_cover:
  "0 \<le> off \<Longrightarrow> tiles H t data off fs \<Longrightarrow> off \<le> i \<Longrightarrow> i < int (length data) \<Longrightarrow>
   \<exists>f \<in> set fs. cf_Offset f \<le> i \<and> i < cf_Offset f + cf_Size f"
proof (induction fs arbitrary: off)
  case Nil
  then show ?case by simp
next
  case (Cons g fs)
  show ?case
  proof (cases "i < off + cf_Size g")
    case True
    with Cons.prems show ?thesis by auto
  next
    case False
    from Cons.prems have "0 \<le> off + cf_Size g" "tiles H t data (off + cf_Size g) fs" by simp_all
    with False Cons.prems(4) Cons.IH[of "off + cf_Size g"] show ?thesis by auto
  qed
qed

lemma pack_tiled_init: "pack_tiled H t (pack_init c)"
  by (simp add: pack_tiled_def pack_init_def new_chunk_def)

lemma pack_tiled_seal:
  "pack_tiled H t s \<Longrightarrow> cd_Files (ps_current s) \<noteq> [] \<Longrightarrow> pack_tiled H t (seal H s)"
  by (auto simp: pack_tiled_def seal_def new_chunk_def)

lemma pack_tiled_add:
  "pack_tiled H t s \<Longrightarrow> ReadFile t p = Some d \<Longrightarrow> pack_tiled H t (add_file s p (int (length d)) d (H d))"
  by (auto simp: pack_tiled_def add_file_def tiles_append)

lemma read_stat:
  "ReadFile t p = Some d \<Longrightarrow> \<exists>mt. Stat t p = Some (File d mt True)"
  by (auto simp: ReadFile_def Stat_def split: option.splits fsnode.splits if_splits)

lemma pack_tiled_file: "pack_tiled H t s \<Longrightarrow> pack_tiled H t (pack_file H t s p)"
proof (cases "ReadFile t p")
  case None
  assume "pack_tiled H t s"
  with None show ?thesis
    by (auto simp: pack_file_def Let_def seals_def pack_tiled_seal split: option.splits)
next
  case (Some d)
  assume inv: "pack_tiled H t s"
  from Some obtain mt where st: "Stat t p = Some (File d mt True)"
    using read_stat by blast
  have hd: "CalculateFileHash H t p = Some (H d)"
    using Some by (simp add: CalculateFileHash_def)
  show ?thesis
  proof (cases "seals s (int (length d))")
    case True
    then have "pack_tiled H t (seal H s)"
      using inv by (simp add: seals_def pack_tiled_seal)
    then show ?thesis
      using True st Some hd by (simp add: pack_file_def pack_tiled_add)
  next
    case False
    then show ?thesis
      using inv st Some hd by (simp add: pack_file_def pack_tiled_add)
  qed
qed

lemma pack_tiled_fold: "pack_tiled H t s \<Longrightarrow> pack_tiled H t (foldl (pack_file H t) s files)"
  by (induction files arbitrary: s) (simp_all add: pack_tiled_file)

lemma CreateChunks_tiled:
  assumes "ch \<in> set (fst (CreateChunks H t c files))"
  shows "cd_Files ch \<noteq> [] \<and> tiles H t (cd_Data ch) 0 (cd_Files ch)"
proof -
  let ?s = "foldl (pack_file H t) (pack_init c) files"
  have inv: "pack_tiled H t ?s"
    by (simp add: pack_tiled_fold pack_tiled_init)
  from assms have "ch \<in> set (pack_finish H ?s)"
    by (simp add: CreateChunks_def Let_def)
  then show ?thesis
    using inv by (auto simp: pack_finish_def pack_tiled_def split: if_splits)
qed

lemma slice_update_neq:
  assumes "k \<le> i" "i < k + n" "k + n \<le> length xs" "b \<noteq> xs ! i"
  shows "take n (drop k (xs[i := b])) \<noteq> take n (drop k xs)"
proof
  assume eq: "take n (drop k (xs[i := b])) = take n (drop k xs)"
  have "take n (drop k (xs[i := b])) ! (i - k) = (xs[i := b]) ! i"
    using assms by simp
  moreover have "take n (drop k xs) ! (i - k) = xs ! i"
    using assms by simp
  moreover have "(xs[i := b]) ! i = b"
    using assms by simp
  ultimately show False using eq assms(4) by simp
qed

lemma extract_in_range:
  assumes "0 \<le> cf_Offset f" "0 \<le> cf_Size f"
    and "cf_Offset f + cf_Size f \<le> int (length data)"
    and "int (length data) < 2 ^ 63"
  shows "ExtractFileFromChunk H data f =
     (let d = take (nat (cf_Size f)) (drop (nat (cf_Offset f)) data)
      in if H d \<noteq> cf_Hash f then Inl ErrHashMismatch else Inr d)"
proof -
  have "add64 (cf_Offset f) (cf_Size f) = cf_Offset f + cf_Size f"
    using assms by (intro add64_id) auto
  then show ?thesis
    using assms by (simp add: ExtractFileFromChunk_def go_slice_def CalculateDataHash_def Let_def)
qed

lemma extract_packed:
  assumes "ch \<in> set (fst (CreateChunks H t c files))" "f \<in> set (cd_Files ch)"
    and "int (length (cd_Data ch)) < 2 ^ 63"
  shows "\<exists>d. ExtractFileFromChunk H (cd_Data ch) f = Inr d \<and> CalculateDataHash H d = cf_Hash f \<and>
             ReadFile t (cf_Path f) = Some d"
proof -
  have "tiles H t (cd_Data ch) 0 (cd_Files ch)"
    using assms(1) CreateChunks_tiled by blast
  then have m: "0 \<le> cf_Offset f \<and> 0 \<le> cf_Size f \<and>
      cf_Offset f + cf_Size f \<le> int (length (cd_Data ch)) \<and>
      H (take (nat (cf_Size f)) (drop (nat (cf_Offset f)) (cd_Data ch))) = cf_Hash f \<and>
      ReadFile t (cf_Path f) =
        Some (take (nat (cf_Size f)) (drop (nat (cf_Offset f)) (cd_Data ch)))"
    using tiles_member[of 0 H t "cd_Data ch" "cd_Files ch" f] assms(2) by simp
  then show ?thesis
    using assms(3) by (simp add: extract_in_range CalculateDataHash_def Let_def)
qed

lemma extract_mutated:
  assumes "ch \<in> set (fst (CreateChunks H t c files))"
    and "int (length (cd_Data ch)) < 2 ^ 63"
    and "i < length (cd_Data ch)" "b \<noteq> cd_Data ch ! i"
    and nocoll: "\<forall>f \<in> set (cd_Files ch).
        take (nat (cf_Size f)) (drop (nat (cf_Offset f)) ((cd_Data ch)[i := b])) \<noteq>
        take (nat (cf_Size f)) (drop (nat (cf_Offset f)) (cd_Data ch)) \<longrightarrow>
        H (take (nat (cf_Size f)) (drop (nat (cf_Offset f)) ((cd_Data ch)[i := b]))) \<noteq>
        H (take (nat (cf_Size f)) (drop (nat (cf_Offset f)) (cd_Data ch)))"
  shows "\<exists>f \<in> set (cd_Files ch).
           ExtractFileFromChunk H ((cd_Data ch)[i := b]) f = Inl ErrHashMismatch"
proof -
  let ?d = "cd_Data ch"
  have til: "tiles H t ?d 0 (cd_Files ch)"
    using assms(1) CreateChunks_tiled by blast
  then obtain f where f: "f \<in> set (cd_Files ch)" "cf_Offset f \<le> int i"
      "int i < cf_Offset f + cf_Size f"
    using tiles_cover[of 0 H t ?d "cd_Files ch" "int i"] assms(3) by auto
  have m: "0 \<le> cf_Offset f" "0 \<le> cf_Size f" "cf_Offset f + cf_Size f \<le> int (length ?d)"
      "H (take (nat (cf_Size f)) (drop (nat (cf_Offset f)) ?d)) = cf_Hash f"
    using tiles_member[of 0 H t ?d "cd_Files ch" f] til f(1) by simp_all
  have "take (nat (cf_Size f)) (drop (nat (cf_Offset f)) (?d[i := b])) \<noteq>
        take (nat (cf_Size f)) (drop (nat (cf_Offset f)) ?d)"
    using f m assms(4) by (intro slice_update_neq) linarith+
  with nocoll f(1) m(4)
  have "H (take (nat (cf_Size f)) (drop (nat (cf_Offset f)) (?d[i := b]))) \<noteq> cf_Hash f"
    by auto
  moreover have "ExtractFileFromChunk H (?d[i := b]) f =
     (let d = take (nat (cf_Size f)) (drop (nat (cf_Offset f)) (?d[i := b]))
      in if H d \<noteq> cf_Hash f then Inl ErrHashMismatch else Inr d)"
    using m assms(2) by (intro extract_in_range) simp_all
  ultimately show ?thesis using f(1) by (auto simp: Let_def)
qed


lemma pack_file_missing:
  "Stat t p = None \<or> Stat t p = Some Dir \<Longrightarrow> pack_file H t s p = s"
  by (auto simp: pack_file_def)














lemma two_files_scenario:
  assumes "map_of t pa = Some (File da ma True)" "map_of t pb = Some (File db mb True)"
    and "length da = 2 * 1024 * 1024" "length db = 4 * 1024 * 1024"
  shows "CreateChunks H t c [pa, pb] =
    ([\<lparr>cd_ID = c, cd_Data = da, cd_Files = [file_entry H pa 0 da], cd_Hash = H da\<rparr>,
      \<lparr>cd_ID = add64 c 1, cd_Data = db, cd_Files = [file_entry H pb 0 db], cd_Hash = H db\<rparr>],
     add64 (add64 c 1) 1)"
proof -
  have w1: "add64 0 2097152 = 2097152" "add64 2097152 4194304 = 6291456"
    "add64 0 4194304 = 4194304"
    by (simp_all add: add64_def wrap64_def)
  show ?thesis
    using assms
    by (simp add: CreateChunks_def pack_init_def pack_file_def pack_finish_def Stat_def
        ReadFile_def CalculateFileHash_def CalculateDataHash_def seals_def seal_def add_file_def
        new_chunk_def file_entry_def ChunkSize_def w1 Let_def)
qed

lemma pack_file_ids:
  "pack_file H t s p = s \<or>
   (ps_chunks (pack_file H t s p) = ps_chunks s \<and>
    cd_ID (ps_current (pack_file H t s p)) = cd_ID (ps_current s) \<and>
    ps_chunkID (pack_file H t s p) = ps_chunkID s) \<or>
   (map cd_ID (ps_chunks (pack_file H t s p)) = map cd_ID (ps_chunks s) @ [cd_ID (ps_current s)] \<and>
    cd_ID (ps_current (pack_file H t s p)) = ps_chunkID s \<and>
    ps_chunkID (pack_file H t s p) = add64 (ps_chunkID s) 1)"
  by (auto simp: pack_file_def Let_def seal_def add_file_def new_chunk_def split: option.splits)

lemma ids_ok_step:
  assumes "ids_ok lo s" "- (2 ^ 63) \<le> ps_chunkID s" "ps_chunkID s + 1 < 2 ^ 63"
  shows "ids_ok lo (pack_file H t s p) \<and> ps_chunkID s \<le> ps_chunkID (pack_file H t s p) \<and>
         ps_chunkID (pack_file H t s p) \<le> ps_chunkID s + 1"
proof -
  have a: "add64 (ps_chunkID s) 1 = ps_chunkID s + 1"
    using assms(2,3) by (intro add64_id) auto
  from pack_file_ids[of H t s p] show ?thesis
  proof (elim disjE)
    assume "pack_file H t s p = s"
    with assms(1) show ?thesis by simp
  next
    assume "ps_chunks (pack_file H t s p) = ps_chunks s \<and>
      cd_ID (ps_current (pack_file H t s p)) = cd_ID (ps_current s) \<and>
      ps_chunkID (pack_file H t s p) = ps_chunkID s"
    with assms(1) show ?thesis by (simp add: ids_ok_def)
  next
    assume h: "map cd_ID (ps_chunks (pack_file H t s p)) =
        map cd_ID (ps_chunks s) @ [cd_ID (ps_current s)] \<and>
      cd_ID (ps_current (pack_file H t s p)) = ps_chunkID s \<and>
      ps_chunkID (pack_file H t s p) = add64 (ps_chunkID s) 1"
    then have ids: "cd_ID ` set (ps_chunks (pack_file H t s p)) =
        insert (cd_ID (ps_current s)) (cd_ID ` set (ps_chunks s))"
      by (metis list.set_map set_append list.simps(15) Un_insert_right sup_bot.right_neutral
          empty_set)
    have srt: "sorted_wrt (<) (map cd_ID (ps_chunks (pack_file H t s p)))"
      using h assms(1) by (auto simp: ids_ok_def sorted_wrt_append)
    have bnd: "\<forall>i \<in> cd_ID ` set (ps_chunks (pack_file H t s p)). lo \<le> i \<and> i < ps_chunkID s"
      unfolding ids using assms(1) by (auto simp: ids_ok_def)
    show ?thesis
      using h a srt bnd assms(1) by (auto simp: ids_ok_def)
  qed
qed

lemma ids_ok_fold:
  "ids_ok lo s \<Longrightarrow> - (2 ^ 63) \<le> ps_chunkID s \<Longrightarrow>
   ps_chunkID s + int (length files) < 2 ^ 63 \<Longrightarrow>
   ids_ok lo (foldl (pack_file H t) s files) \<and>
   ps_chunkID s \<le> ps_chunkID (foldl (pack_file H t) s files) \<and>
   ps_chunkID (foldl (pack_file H t) s files) \<le> ps_chunkID s + int (length files)"
proof (induction files arbitrary: s)
  case Nil
  then show ?case by simp
next
  case (Cons p files)
  let ?s1 = "pack_file H t s p"
  have st: "ids_ok lo ?s1 \<and> ps_chunkID s \<le> ps_chunkID ?s1 \<and> ps_chunkID ?s1 \<le> ps_chunkID s + 1"
    using Cons.prems by (intro ids_ok_step) auto
  then have "ids_ok lo ?s1" "- (2 ^ 63) \<le> ps_chunkID ?s1"
      "ps_chunkID ?s1 + int (length files) < 2 ^ 63"
    using Cons.prems by auto
  from Cons.IH[OF this] st show ?case by auto
qed

lemma CreateChunks_ids:
  assumes "- (2 ^ 63) \<le> c" "c + 1 + int (length files) < 2 ^ 63"
  shows "sorted_wrt (<) (map cd_ID (fst (CreateChunks H t c files))) \<and>
         (\<forall>ch \<in> set (fst (CreateChunks H t c files)).
             c \<le> cd_ID ch \<and> cd_ID ch < snd (CreateChunks H t c files)) \<and>
         c < snd (CreateChunks H t c files) \<and>
         snd (CreateChunks H t c files) \<le> c + 1 + int (length files)"
proof -
  let ?s = "foldl (pack_file H t) (pack_init c) files"
  have a: "add64 c 1 = c + 1"
    using assms by (intro add64_id) auto
  have i0: "ids_ok c (pack_init c)"
    by (simp add: ids_ok_def pack_init_def new_chunk_def a)
  have "- (2 ^ 63) \<le> ps_chunkID (pack_init c)"
       "ps_chunkID (pack_init c) + int (length files) < 2 ^ 63"
    using assms by (simp_all add: pack_init_def a)
  from ids_ok_fold[OF i0 this]
  have inv: "ids_ok c ?s" and lo: "c + 1 \<le> ps_chunkID ?s"
    and hi: "ps_chunkID ?s \<le> c + 1 + int (length files)"
    by (simp_all add: pack_init_def a)
  have srt: "sorted_wrt (<) (map cd_ID (pack_finish H ?s))"
    using inv by (auto simp: pack_finish_def ids_ok_def sorted_wrt_append)
  have bnd: "\<forall>ch \<in> set (pack_finish H ?s). c \<le> cd_ID ch \<and> cd_ID ch < ps_chunkID ?s"
    using inv by (auto simp: pack_finish_def ids_ok_def)
  show ?thesis
    using srt bnd lo hi by (simp add: CreateChunks_def Let_def)
qed






lemma toy_hash_simps: "toy_hash [] = []" "toy_hash (b # bs) = char_of (unat b) # toy_hash bs"
  by (simp_all add: toy_hash_def)

lemma small_chunks:
  "CreateChunks toy_hash small_tree 1 [''w/a.txt'', ''w/b.txt''] =
     ([\<lparr>cd_ID = 1, cd_Data = [1, 2],
        cd_Files = [\<lparr>cf_Path = ''w/a.txt'', cf_Offset = 0, cf_Size = 1, cf_Hash = toy_hash [1]\<rparr>,
                    \<lparr>cf_Path = ''w/b.txt'', cf_Offset = 1, cf_Size = 1, cf_Hash = toy_hash [2]\<rparr>],
        cd_Hash = toy_hash [1, 2]\<rparr>], 2)"
  by (simp add: CreateChunks_def pack_init_def pack_file_def pack_finish_def Stat_def
        ReadFile_def CalculateFileHash_def CalculateDataHash_def seals_def seal_def add_file_def
        new_chunk_def ChunkSize_def add64_def wrap64_def small_tree_def Let_def)

text \<open>
  Claim C4. For every chunk the packer produces and every range it records, extraction
  from the chunk's bytes succeeds and returns the file's bytes, whose digest is the
  recorded one. Extraction fails with the boundary error whenever offset plus length, as
  the code adds them, exceeds the length of the chunk bytes, and with the integrity error
  whenever the digest of the slice differs from the recorded one. When one byte of a
  packed chunk is changed, and the digest tells the changed slices from the original
  ones, the extraction of some recorded range fails with the integrity error.
\<close>

theorem extract_contract:
  "(ch \<in> set (fst (CreateChunks H t c files)) \<and> f \<in> set (cd_Files ch) \<and>
    int (length (cd_Data ch)) < 2 ^ 63 \<longrightarrow>
      (\<exists>d. ExtractFileFromChunk H (cd_Data ch) f = Inr d \<and>
           CalculateDataHash H d = cf_Hash f \<and> ReadFile t (cf_Path f) = Some d)) \<and>
   (add64 (cf_Offset g1) (cf_Size g1) > int (length data1) \<longrightarrow>
      ExtractFileFromChunk H data1 g1 = Inl ErrBoundary) \<and>
   (\<not> add64 (cf_Offset g2) (cf_Size g2) > int (length data2) \<and>
    go_slice data2 (cf_Offset g2) (add64 (cf_Offset g2) (cf_Size g2)) = Inr x \<and>
    CalculateDataHash H x \<noteq> cf_Hash g2 \<longrightarrow>
      ExtractFileFromChunk H data2 g2 = Inl ErrHashMismatch) \<and>
   (ch \<in> set (fst (CreateChunks H t c files)) \<and> int (length (cd_Data ch)) < 2 ^ 63 \<and>
    i < length (cd_Data ch) \<and> b \<noteq> cd_Data ch ! i \<and>
    (\<forall>f \<in> set (cd_Files ch).
        take (nat (cf_Size f)) (drop (nat (cf_Offset f)) ((cd_Data ch)[i := b])) \<noteq>
        take (nat (cf_Size f)) (drop (nat (cf_Offset f)) (cd_Data ch)) \<longrightarrow>
        H (take (nat (cf_Size f)) (drop (nat (cf_Offset f)) ((cd_Data ch)[i := b]))) \<noteq>
        H (take (nat (cf_Size f)) (drop (nat (cf_Offset f)) (cd_Data ch)))) \<longrightarrow>
      (\<exists>f \<in> set (cd_Files ch).
          ExtractFileFromChunk H ((cd_Data ch)[i := b]) f = Inl ErrHashMismatch))"
proof (intro conjI impI)
  assume "ch \<in> set (fst (CreateChunks H t c files)) \<and> f \<in> set (cd_Files ch) \<and>
    int (length (cd_Data ch)) < 2 ^ 63"
  then show "\<exists>d. ExtractFileFromChunk H (cd_Data ch) f = Inr d \<and>
           CalculateDataHash H d = cf_Hash f \<and> ReadFile t (cf_Path f) = Some d"
    using extract_packed by blast
next
  assume "add64 (cf_Offset g1) (cf_Size g1) > int (length data1)"
  then show "ExtractFileFromChunk H data1 g1 = Inl ErrBoundary"
    by (simp add: ExtractFileFromChunk_def)
next
  assume "\<not> add64 (cf_Offset g2) (cf_Size g2) > int (length data2) \<and>
    go_slice data2 (cf_Offset g2) (add64 (cf_Offset g2) (cf_Size g2)) = Inr x \<and>
    CalculateDataHash H x \<noteq> cf_Hash g2"
  then show "ExtractFileFromChunk H data2 g2 = Inl ErrHashMismatch"
    by (simp add: ExtractFileFromChunk_def)
next
  assume "ch \<in> set (fst (CreateChunks H t c files)) \<and> int (length (cd_Data ch)) < 2 ^ 63 \<and>
    i < length (cd_Data ch) \<and> b \<noteq> cd_Data ch ! i \<and>
    (\<forall>f \<in> set (cd_Files ch).
        take (nat (cf_Size f)) (drop (nat (cf_Offset f)) ((cd_Data ch)[i := b])) \<noteq>
        take (nat (cf_Size f)) (drop (nat (cf_Offset f)) (cd_Data ch)) \<longrightarrow>
        H (take (nat (cf_Size f)) (drop (nat (cf_Offset f)) ((cd_Data ch)[i := b]))) \<noteq>
        H (take (nat (cf_Size f)) (drop (nat (cf_Offset f)) (cd_Data ch))))"
  then show "\<exists>f \<in> set (cd_Files ch).
          ExtractFileFromChunk H ((cd_Data ch)[i := b]) f = Inl ErrHashMismatch"
    using extract_mutated[of ch H t c files i b] by blast
qed

text \<open>The instance of C4 on a chunk of two one-byte files.\<close>

theorem extract_contract_witness:
  "ExtractFileFromChunk toy_hash [1, 2]
      \<lparr>cf_Path = ''w/a.txt'', cf_Offset = 0, cf_Size = 1, cf_Hash = toy_hash [1]\<rparr> = Inr [1] \<and>
   ExtractFileFromChunk toy_hash [1, 2]
      \<lparr>cf_Path = ''w/a.txt'', cf_Offset = 1, cf_Size = 5, cf_Hash = toy_hash [1]\<rparr> = Inl ErrBoundary \<and>
   ExtractFileFromChunk toy_hash [1, 2]
      \<lparr>cf_Path = ''w/a.txt'', cf_Offset = 1, cf_Size = 1, cf_Hash = toy_hash [1]\<rparr>
        = Inl ErrHashMismatch \<and>
   (\<exists>f \<in> {\<lparr>cf_Path = ''w/a.txt'', cf_Offset = 0, cf_Size = 1, cf_Hash = toy_hash [1]\<rparr>,
            \<lparr>cf_Path = ''w/b.txt'', cf_Offset = 1, cf_Size = 1, cf_Hash = toy_hash [2]\<rparr>}.
       ExtractFileFromChunk toy_hash [9, 2] f = Inl ErrHashMismatch)"
proof -
  let ?fa = "\<lparr>cf_Path = ''w/a.txt'', cf_Offset = 0, cf_Size = 1, cf_Hash = toy_hash [1]\<rparr>"
  let ?fb = "\<lparr>cf_Path = ''w/b.txt'', cf_Offset = 1, cf_Size = 1, cf_Hash = toy_hash [2]\<rparr>"
  let ?g1 = "\<lparr>cf_Path = ''w/a.txt'', cf_Offset = 1, cf_Size = 5, cf_Hash = toy_hash [1]\<rparr>"
  let ?g2 = "\<lparr>cf_Path = ''w/a.txt'', cf_Offset = 1, cf_Size = 1, cf_Hash = toy_hash [1]\<rparr>"
  let ?ch = "\<lparr>cd_ID = 1, cd_Data = [1, 2], cd_Files = [?fa, ?fb], cd_Hash = toy_hash [1, 2]\<rparr>"
  let ?files = "[''w/a.txt'', ''w/b.txt'']"
  have w: "add64 0 1 = 1" "add64 1 5 = 6" "add64 1 1 = 2"
    by (simp_all add: add64_def wrap64_def)
  have h1: "?ch \<in> set (fst (CreateChunks toy_hash small_tree 1 ?files)) \<and>
      ?fa \<in> set (cd_Files ?ch) \<and> int (length (cd_Data ?ch)) < 2 ^ 63"
    by (simp add: small_chunks)
  have h2: "add64 (cf_Offset ?g1) (cf_Size ?g1) > int (length [1, 2 :: byte])"
    by (simp add: w)
  have h3: "\<not> add64 (cf_Offset ?g2) (cf_Size ?g2) > int (length [1, 2 :: byte]) \<and>
      go_slice [1, 2 :: byte] (cf_Offset ?g2) (add64 (cf_Offset ?g2) (cf_Size ?g2)) = Inr [2] \<and>
      CalculateDataHash toy_hash [2] \<noteq> cf_Hash ?g2"
    by (simp add: w go_slice_def CalculateDataHash_def toy_hash_simps)
  have h4: "?ch \<in> set (fst (CreateChunks toy_hash small_tree 1 ?files)) \<and>
      int (length (cd_Data ?ch)) < 2 ^ 63 \<and> 0 < length (cd_Data ?ch) \<and> 9 \<noteq> cd_Data ?ch ! 0 \<and>
      (\<forall>f \<in> set (cd_Files ?ch).
        take (nat (cf_Size f)) (drop (nat (cf_Offset f)) ((cd_Data ?ch)[0 := 9])) \<noteq>
        take (nat (cf_Size f)) (drop (nat (cf_Offset f)) (cd_Data ?ch)) \<longrightarrow>
        toy_hash (take (nat (cf_Size f)) (drop (nat (cf_Offset f)) ((cd_Data ?ch)[0 := 9]))) \<noteq>
        toy_hash (take (nat (cf_Size f)) (drop (nat (cf_Offset f)) (cd_Data ?ch))))"
    by (simp add: small_chunks toy_hash_simps)
  from extract_contract[where ch = ?ch and H = toy_hash and t = small_tree and c = 1
      and files = ?files and f = ?fa and ?g1.0 = ?g1 and ?data1.0 = "[1, 2]" and ?g2.0 = ?g2
      and ?data2.0 = "[1, 2]" and x = "[2]" and i = 0 and b = 9]
    h1 h2 h3 h4
  have "(\<exists>d. ExtractFileFromChunk toy_hash (cd_Data ?ch) ?fa = Inr d \<and>
           CalculateDataHash toy_hash d = cf_Hash ?fa \<and>
           ReadFile small_tree (cf_Path ?fa) = Some d) \<and>
     ExtractFileFromChunk toy_hash [1, 2] ?g1 = Inl ErrBoundary \<and>
     ExtractFileFromChunk toy_hash [1, 2] ?g2 = Inl ErrHashMismatch \<and>
     (\<exists>f \<in> set (cd_Files ?ch).
          ExtractFileFromChunk toy_hash ((cd_Data ?ch)[0 := 9]) f = Inl ErrHashMismatch)"
    by blast
  then show ?thesis
    by (auto simp: ReadFile_def small_tree_def)
qed

subsection \<open>Tombstoning\<close>

text \<open>
  Claim C10. For a path with no record in the catalog, \<open>MarkFileDeleted\<close> returns the
  catalog unchanged, and a batch that holds one DELETE event for that path leaves the file
  map as it was.
\<close>

theorem MarkFileDeleted_untracked:
  "md_Files (e_metadata e) path = None \<longrightarrow>
     MarkFileDeleted (e_metadata e) path = e_metadata e \<and>
     md_Files (e_metadata (fst (snd (handleChanges H t env e disk
        [\<lparr>fc_Path = path, fc_Operation = ''DELETE'', fc_FileInfo = fi\<rparr>])))) =
       md_Files (e_metadata e)"
  by (simp add: MarkFileDeleted_def handleChanges_def classify_def SaveMetadata_def Let_def
      split: sum.splits prod.splits)

text \<open>The instance of C10 on a fresh engine.\<close>

theorem MarkFileDeleted_untracked_witness:
  "MarkFileDeleted (e_metadata (NewEngine 0 ''w'' ''b'')) ''ghost.txt'' =
     e_metadata (NewEngine 0 ''w'' ''b'') \<and>
   md_Files (e_metadata (fst (snd (handleChanges toy_hash small_tree ok_env
      (NewEngine 0 ''w'' ''b'') empty_dir
      [\<lparr>fc_Path = ''ghost.txt'', fc_Operation = ''DELETE'', fc_FileInfo = None\<rparr>])))) = Map.empty"
proof -
  have h: "md_Files (e_metadata (NewEngine 0 ''w'' ''b'')) ''ghost.txt'' = None"
    by (simp add: NewEngine_def NewManager_def)
  have "md_Files (e_metadata (NewEngine 0 ''w'' ''b'')) = Map.empty"
    by (simp add: NewEngine_def NewManager_def)
  with MarkFileDeleted_untracked[of "NewEngine 0 ''w'' ''b''" "''ghost.txt''" toy_hash
      small_tree ok_env empty_dir None] h
  show ?thesis by simp
qed

subsection \<open>Reconcile\<close>

lemma new_or_modified_cases:
  "ch \<in> set (new_or_modified cur stored p) \<longleftrightarrow>
     (\<exists>c. cur p = Some c \<and> stored p = None \<and>
          ch = \<lparr>fc_Path = p, fc_Operation = ''CREATE'', fc_FileInfo = Some c\<rparr>) \<or>
     (\<exists>c s. cur p = Some c \<and> stored p = Some s \<and> \<not> fi_IsDeleted s \<and>
          (fi_Hash s \<noteq> fi_Hash c \<or> fi_ModTime s \<noteq> fi_ModTime c) \<and>
          ch = \<lparr>fc_Path = p, fc_Operation = ''MODIFY'', fc_FileInfo = Some c\<rparr>)"
  by (cases "cur p"; cases "stored p") (auto simp: new_or_modified_def)

lemma deleted_change_cases:
  "ch \<in> set (deleted_change cur stored p) \<longleftrightarrow>
     (\<exists>s. stored p = Some s \<and> \<not> fi_IsDeleted s \<and> cur p = None \<and>
          ch = \<lparr>fc_Path = p, fc_Operation = ''DELETE'', fc_FileInfo = None\<rparr>)"
  by (cases "stored p") (auto simp: deleted_change_def)

lemma DetectChanges_set:
  assumes "range_order (currentFiles H w t) ord1" "range_order (md_Files m) ord2"
  shows "ch \<in> set (DetectChanges H w t m ord1 ord2) \<longleftrightarrow>
     (\<exists>p c. currentFiles H w t p = Some c \<and> md_Files m p = None \<and>
          ch = \<lparr>fc_Path = p, fc_Operation = ''CREATE'', fc_FileInfo = Some c\<rparr>) \<or>
     (\<exists>p c s. currentFiles H w t p = Some c \<and> md_Files m p = Some s \<and> \<not> fi_IsDeleted s \<and>
          (fi_Hash s \<noteq> fi_Hash c \<or> fi_ModTime s \<noteq> fi_ModTime c) \<and>
          ch = \<lparr>fc_Path = p, fc_Operation = ''MODIFY'', fc_FileInfo = Some c\<rparr>) \<or>
     (\<exists>p s. md_Files m p = Some s \<and> \<not> fi_IsDeleted s \<and> currentFiles H w t p = None \<and>
          ch = \<lparr>fc_Path = p, fc_Operation = ''DELETE'', fc_FileInfo = None\<rparr>)"
proof -
  let ?cur = "currentFiles H w t"
  have o1: "\<And>p. p \<in> set ord1 \<longleftrightarrow> ?cur p \<noteq> None"
    using assms(1) by (auto simp: range_order_def)
  have o2: "\<And>p. p \<in> set ord2 \<longleftrightarrow> md_Files m p \<noteq> None"
    using assms(2) by (auto simp: range_order_def)
  have "ch \<in> set (DetectChanges H w t m ord1 ord2) \<longleftrightarrow>
      (\<exists>p \<in> set ord1. ch \<in> set (new_or_modified ?cur (md_Files m) p)) \<or>
      (\<exists>p \<in> set ord2. ch \<in> set (deleted_change ?cur (md_Files m) p))"
    by (auto simp: DetectChanges_def Let_def)
  also have "\<dots> \<longleftrightarrow>
      (\<exists>p. ch \<in> set (new_or_modified ?cur (md_Files m) p)) \<or>
      (\<exists>p. ch \<in> set (deleted_change ?cur (md_Files m) p))"
    using o1 o2 by (auto simp: new_or_modified_cases deleted_change_cases)
  finally show ?thesis
    by (simp add: new_or_modified_cases deleted_change_cases) blast
qed

lemma paths_new_or_modified:
  "map fc_Path (concat (map (new_or_modified cur stored) ks)) =
     filter (\<lambda>p. new_or_modified cur stored p \<noteq> []) ks"
  by (induction ks) (auto simp: new_or_modified_def split: option.splits)

lemma paths_deleted_change:
  "map fc_Path (concat (map (deleted_change cur stored) ks)) =
     filter (\<lambda>p. deleted_change cur stored p \<noteq> []) ks"
  by (induction ks) (auto simp: deleted_change_def split: option.splits)

lemma DetectChanges_one_per_path:
  assumes "distinct ord1" "distinct ord2"
  shows "distinct (map fc_Path (DetectChanges H w t m ord1 ord2))"
proof -
  let ?cur = "currentFiles H w t"
  have excl: "new_or_modified ?cur (md_Files m) p \<noteq> [] \<Longrightarrow>
      deleted_change ?cur (md_Files m) p \<noteq> [] \<Longrightarrow> False" for p
    by (cases "?cur p"; cases "md_Files m p")
       (auto simp: new_or_modified_def deleted_change_def split: if_splits)
  have "set (filter (\<lambda>p. new_or_modified ?cur (md_Files m) p \<noteq> []) ord1) \<inter>
        set (filter (\<lambda>p. deleted_change ?cur (md_Files m) p \<noteq> []) ord2) = {}"
    using excl by auto
  then show ?thesis
    using assms
    by (simp add: DetectChanges_def Let_def paths_new_or_modified paths_deleted_change)
qed

lemma settled_step:
  assumes "from_walk cur ch" "cur p = Some c"
    and "settled c (snd acc) p \<or> fc_Path ch = p"
  shows "settled c (snd (classify w acc ch)) p"
  using assms
  by (cases "md_Files (snd acc) (fc_Path ch)")
     (auto simp: from_walk_def classify_def settled_def UpdateFileInfo_def MarkFileDeleted_def)

lemma gone_step:
  assumes "from_walk cur ch" "cur p = None"
    and "gone (snd acc) p \<or> fc_Path ch = p"
  shows "gone (snd (classify w acc ch)) p"
  using assms
  by (cases "md_Files (snd acc) (fc_Path ch)")
     (auto simp: from_walk_def classify_def gone_def UpdateFileInfo_def MarkFileDeleted_def)

lemma settled_fold:
  "\<forall>ch \<in> set changes. from_walk cur ch \<Longrightarrow> cur p = Some c \<Longrightarrow>
   settled c (snd acc) p \<or> p \<in> fc_Path ` set changes \<Longrightarrow>
   settled c (snd (foldl (classify w) acc changes)) p"
proof (induction changes arbitrary: acc)
  case Nil
  then show ?case by simp
next
  case (Cons ch changes)
  show ?case
  proof (cases "settled c (snd acc) p \<or> fc_Path ch = p")
    case True
    then have "settled c (snd (classify w acc ch)) p"
      using Cons.prems(1,2) by (intro settled_step[of cur]) auto
    then show ?thesis
      using Cons.IH[of "classify w acc ch"] Cons.prems(1,2) by simp
  next
    case False
    then have "p \<in> fc_Path ` set changes"
      using Cons.prems(3) by auto
    then show ?thesis
      using Cons.IH[of "classify w acc ch"] Cons.prems(1,2) by simp
  qed
qed

lemma gone_fold:
  "\<forall>ch \<in> set changes. from_walk cur ch \<Longrightarrow> cur p = None \<Longrightarrow>
   gone (snd acc) p \<or> p \<in> fc_Path ` set changes \<Longrightarrow>
   gone (snd (foldl (classify w) acc changes)) p"
proof (induction changes arbitrary: acc)
  case Nil
  then show ?case by simp
next
  case (Cons ch changes)
  show ?case
  proof (cases "gone (snd acc) p \<or> fc_Path ch = p")
    case True
    then have "gone (snd (classify w acc ch)) p"
      using Cons.prems(1,2) by (intro gone_step[of cur]) auto
    then show ?thesis
      using Cons.IH[of "classify w acc ch"] Cons.prems(1,2) by simp
  next
    case False
    then have "p \<in> fc_Path ` set changes"
      using Cons.prems(3) by auto
    then show ?thesis
      using Cons.IH[of "classify w acc ch"] Cons.prems(1,2) by simp
  qed
qed

lemma DetectChanges_from_walk:
  "\<forall>ch \<in> set (DetectChanges H w t m ord1 ord2). from_walk (currentFiles H w t) ch"
  by (auto simp: DetectChanges_def Let_def new_or_modified_cases deleted_change_cases from_walk_def)

lemma DetectChanges_covers_walked:
  assumes "currentFiles H w t p = Some c" "p \<in> set ord1"
  shows "settled c m p \<or> p \<in> fc_Path ` set (DetectChanges H w t m ord1 ord2)"
proof (cases "new_or_modified (currentFiles H w t) (md_Files m) p")
  case Nil
  then have "settled c m p"
    using assms(1) by (cases "md_Files m p") (auto simp: new_or_modified_def settled_def split: if_splits)
  then show ?thesis by simp
next
  case (Cons ch chs)
  then have "ch \<in> set (new_or_modified (currentFiles H w t) (md_Files m) p)" by simp
  then have "fc_Path ch = p \<and> ch \<in> set (DetectChanges H w t m ord1 ord2)"
    using assms(2) by (auto simp: new_or_modified_cases DetectChanges_def Let_def)
  then show ?thesis by force
qed

lemma DetectChanges_covers_missing:
  assumes "currentFiles H w t p = None" "md_Files m p \<noteq> None \<longrightarrow> p \<in> set ord2"
  shows "gone m p \<or> p \<in> fc_Path ` set (DetectChanges H w t m ord1 ord2)"
proof (cases "deleted_change (currentFiles H w t) (md_Files m) p")
  case Nil
  then have "gone m p"
    using assms(1) by (cases "md_Files m p") (auto simp: deleted_change_def gone_def split: if_splits)
  then show ?thesis by simp
next
  case (Cons ch chs)
  then have in1: "ch \<in> set (deleted_change (currentFiles H w t) (md_Files m) p)" by simp
  then have "md_Files m p \<noteq> None" by (auto simp: deleted_change_cases)
  with assms(2) have "p \<in> set ord2" by simp
  with in1 have "fc_Path ch = p \<and> ch \<in> set (DetectChanges H w t m ord1 ord2)"
    by (auto simp: deleted_change_cases DetectChanges_def Let_def)
  then show ?thesis by force
qed

lemma settled_marks: "marks m p = marks m' p \<Longrightarrow> settled c m p = settled c m' p"
  by (cases "md_Files m p"; cases "md_Files m' p") (auto simp: marks_def settled_def)

lemma gone_marks: "marks m p = marks m' p \<Longrightarrow> gone m p = gone m' p"
  by (cases "md_Files m p"; cases "md_Files m' p") (auto simp: marks_def gone_def)

lemma marks_add_chunk_ref: "marks (add_chunk_ref w i m f) = marks m"
  by (rule ext)
     (auto simp: add_chunk_ref_def marks_def GetFileInfo_def UpdateFileInfo_def Let_def
       split: option.splits)

lemma marks_add_chunk_refs: "marks (foldl (add_chunk_ref w i) m fs) = marks m"
  by (induction fs arbitrary: m) (simp_all add: marks_add_chunk_ref)

lemma marks_AddChunk: "marks (AddChunk m c) = marks m"
  by (rule ext) (simp add: marks_def AddChunk_def)

lemma marks_store_chunk:
  "marks (fst (snd (store_chunk env w b st chunk))) = marks (fst st)"
  by (cases st)
     (auto simp: store_chunk_def Let_def marks_add_chunk_refs marks_AddChunk split: option.splits)

lemma marks_store_chunks:
  "marks (fst (snd (store_chunks env w b st chunks))) = marks (fst st)"
proof (induction chunks arbitrary: st)
  case Nil
  then show ?case by simp
next
  case (Cons chunk chunks)
  obtain res st' where sc: "store_chunk env w b st chunk = (res, st')"
    by (cases "store_chunk env w b st chunk") auto
  have m1: "marks (fst st') = marks (fst st)"
    using marks_store_chunk[of env w b st chunk] sc by simp
  show ?case
  proof (cases res)
    case (Inl err)
    then show ?thesis using sc m1 by simp
  next
    case (Inr u)
    then show ?thesis using sc m1 Cons.IH[of st'] by simp
  qed
qed

lemma createBackupChunks_marks:
  "marks (e_metadata (fst (snd (createBackupChunks H t env e disk files)))) = marks (e_metadata e) \<and>
   e_watchPath (fst (snd (createBackupChunks H t env e disk files))) = e_watchPath e"
proof -
  obtain chunks c' where cc: "CreateChunks H t (e_chunkID e) files = (chunks, c')"
    by (cases "CreateChunks H t (e_chunkID e) files") auto
  obtain res m' disk' where sc:
    "store_chunks env (e_watchPath e) (e_backupPath e) (e_metadata e, disk) chunks = (res, m', disk')"
    by (cases "store_chunks env (e_watchPath e) (e_backupPath e) (e_metadata e, disk) chunks") auto
  have "marks m' = marks (e_metadata e)"
    using marks_store_chunks[of env "e_watchPath e" "e_backupPath e" "(e_metadata e, disk)" chunks] sc
    by simp
  then show ?thesis
    by (simp add: createBackupChunks_def cc sc)
qed

lemma SaveMetadata_marks: "marks (fst (snd (SaveMetadata env b m disk))) = marks m"
  by (rule ext) (auto simp: SaveMetadata_def marks_def Let_def split: sum.splits)

lemma handleChanges_marks:
  "marks (e_metadata (fst (snd (handleChanges H t env e disk changes)))) =
     marks (snd (foldl (classify (e_watchPath e)) ([], e_metadata e) changes)) \<and>
   e_watchPath (fst (snd (handleChanges H t env e disk changes))) = e_watchPath e"
proof -
  obtain files m1 where f: "foldl (classify (e_watchPath e)) ([], e_metadata e) changes = (files, m1)"
    by (cases "foldl (classify (e_watchPath e)) ([], e_metadata e) changes") auto
  let ?e1 = "e\<lparr>e_metadata := m1\<rparr>"
  have sv: "marks (e_metadata (fst (snd (case SaveMetadata env (e_backupPath e2) (e_metadata e2) d2 of
               (res, m3, disk3) \<Rightarrow> (res, e2\<lparr>e_metadata := m3\<rparr>, disk3))))) = marks (e_metadata e2) \<and>
            e_watchPath (fst (snd (case SaveMetadata env (e_backupPath e2) (e_metadata e2) d2 of
               (res, m3, disk3) \<Rightarrow> (res, e2\<lparr>e_metadata := m3\<rparr>, disk3)))) = e_watchPath e2" for e2 d2
    using SaveMetadata_marks[of env "e_backupPath e2" "e_metadata e2" d2]
    by (cases "SaveMetadata env (e_backupPath e2) (e_metadata e2) d2") auto
  show ?thesis
  proof (cases "files = []")
    case True
    then show ?thesis
      using sv[of ?e1 disk] by (simp add: handleChanges_def f)
  next
    case False
    obtain res e2 d2 where cb: "createBackupChunks H t env ?e1 disk files = (res, e2, d2)"
      by (cases "createBackupChunks H t env ?e1 disk files") auto
    have m2: "marks (e_metadata e2) = marks m1" "e_watchPath e2 = e_watchPath e"
      using createBackupChunks_marks[of H t env ?e1 disk files] cb by simp_all
    show ?thesis
    proof (cases res)
      case (Inl err)
      then show ?thesis using False cb m2 by (simp add: handleChanges_def f)
    next
      case (Inr u)
      then show ?thesis using False cb m2 sv[of e2 d2] by (simp add: handleChanges_def f)
    qed
  qed
qed

lemma reconcile_after_backup:
  assumes o1: "range_order (currentFiles H (e_watchPath e) t) ord1"
    and o2: "range_order (md_Files (e_metadata e)) ord2"
  shows "DetectChanges H (e_watchPath (fst (snd (PerformFullBackup H t env ord1 ord2 e disk)))) t
           (e_metadata (fst (snd (PerformFullBackup H t env ord1 ord2 e disk)))) ord1' ord2' = []"
proof -
  let ?w = "e_watchPath e"
  let ?cur = "currentFiles H ?w t"
  let ?changes = "DetectChanges H ?w t (e_metadata e) ord1 ord2"
  let ?m1 = "snd (foldl (classify ?w) ([], e_metadata e) ?changes)"
  let ?e' = "fst (snd (PerformFullBackup H t env ord1 ord2 e disk))"
  have hm: "marks (e_metadata ?e') = marks ?m1" and hw: "e_watchPath ?e' = ?w"
    using handleChanges_marks[of H t env e disk ?changes] by (simp_all add: PerformFullBackup_def)
  have fw: "\<forall>ch \<in> set ?changes. from_walk ?cur ch"
    by (rule DetectChanges_from_walk)
  have a: "settled c (e_metadata ?e') p" if "?cur p = Some c" for p c
  proof -
    have "p \<in> set ord1" using o1 that by (auto simp: range_order_def)
    then have "settled c (e_metadata e) p \<or> p \<in> fc_Path ` set ?changes"
      using that by (intro DetectChanges_covers_walked)
    then have "settled c ?m1 p"
      using fw that by (intro settled_fold[of _ ?cur]) simp_all
    then show ?thesis using hm settled_marks[of "e_metadata ?e'" p ?m1 c] by simp
  qed
  have b: "gone (e_metadata ?e') p" if "?cur p = None" for p
  proof -
    have "md_Files (e_metadata e) p \<noteq> None \<longrightarrow> p \<in> set ord2"
      using o2 by (auto simp: range_order_def)
    then have "gone (e_metadata e) p \<or> p \<in> fc_Path ` set ?changes"
      using that by (intro DetectChanges_covers_missing)
    then have "gone ?m1 p"
      using fw that by (intro gone_fold[of _ ?cur]) simp_all
    then show ?thesis using hm gone_marks[of "e_metadata ?e'" p ?m1] by simp
  qed
  have n: "new_or_modified ?cur (md_Files (e_metadata ?e')) p = []" for p
  proof (cases "?cur p")
    case None
    then show ?thesis by (simp add: new_or_modified_def)
  next
    case (Some c)
    from a[OF Some] Some show ?thesis
      by (auto simp: new_or_modified_def settled_def)
  qed
  have d: "deleted_change ?cur (md_Files (e_metadata ?e')) p = []" for p
  proof (cases "?cur p")
    case None
    from b[OF None] show ?thesis
      by (cases "md_Files (e_metadata ?e') p") (auto simp: deleted_change_def gone_def)
  next
    case (Some c)
    then show ?thesis
      by (cases "md_Files (e_metadata ?e') p") (auto simp: deleted_change_def)
  qed
  show ?thesis
    by (simp add: DetectChanges_def Let_def hw n d)
qed

lemma cur_small:
  "currentFiles toy_hash ''w'' small_tree = [''a.txt'' \<mapsto> info_a, ''b.txt'' \<mapsto> info_b]"
  by (simp add: currentFiles_def walk_visit_def small_tree_def Rel_def CalculateFileHash_def
      ReadFile_def info_a_def info_b_def)

lemma order_small:
  "range_order (currentFiles toy_hash ''w'' small_tree) [''a.txt'', ''b.txt'']"
  by (auto simp: cur_small range_order_def)

text \<open>
  Claim C6, as amended. For every walk and catalog, the changes reported are: CREATE for
  each walked path with no record in the catalog, MODIFY for each walked path whose record
  is live and differs in digest or modification time, DELETE for each live record whose
  path the walk did not produce, and nothing else; each path has at most one change. A
  walked path whose record is tombstoned is within none of the three.
\<close>

theorem reconcile_classification:
  "range_order (currentFiles H w t) ord1 \<and> range_order (md_Files m) ord2 \<longrightarrow>
     (ch \<in> set (DetectChanges H w t m ord1 ord2) \<longleftrightarrow>
       (\<exists>p c. currentFiles H w t p = Some c \<and> md_Files m p = None \<and>
            ch = \<lparr>fc_Path = p, fc_Operation = ''CREATE'', fc_FileInfo = Some c\<rparr>) \<or>
       (\<exists>p c s. currentFiles H w t p = Some c \<and> md_Files m p = Some s \<and> \<not> fi_IsDeleted s \<and>
            (fi_Hash s \<noteq> fi_Hash c \<or> fi_ModTime s \<noteq> fi_ModTime c) \<and>
            ch = \<lparr>fc_Path = p, fc_Operation = ''MODIFY'', fc_FileInfo = Some c\<rparr>) \<or>
       (\<exists>p s. md_Files m p = Some s \<and> \<not> fi_IsDeleted s \<and> currentFiles H w t p = None \<and>
            ch = \<lparr>fc_Path = p, fc_Operation = ''DELETE'', fc_FileInfo = None\<rparr>)) \<and>
     distinct (map fc_Path (DetectChanges H w t m ord1 ord2))"
  using DetectChanges_set[of H w t ord1 m ord2 ch] DetectChanges_one_per_path[of ord1 ord2 H w t m]
  by (simp add: range_order_def)

text \<open>The instance of C6 on a catalog that gives one change of each kind.\<close>

theorem reconcile_classification_witness:
  "\<lparr>fc_Path = ''a.txt'', fc_Operation = ''CREATE'', fc_FileInfo = Some info_a\<rparr>
     \<in> set (DetectChanges toy_hash ''w'' small_tree mixed_catalog
              [''a.txt'', ''b.txt''] [''b.txt'', ''c.txt'']) \<and>
   distinct (map fc_Path (DetectChanges toy_hash ''w'' small_tree mixed_catalog
              [''a.txt'', ''b.txt''] [''b.txt'', ''c.txt'']))"
proof -
  have o2: "range_order (md_Files mixed_catalog) [''b.txt'', ''c.txt'']"
    by (auto simp: range_order_def mixed_catalog_def)
  have c: "currentFiles toy_hash ''w'' small_tree ''a.txt'' = Some info_a \<and>
           md_Files mixed_catalog ''a.txt'' = None"
    by (simp add: cur_small mixed_catalog_def)
  from reconcile_classification[of toy_hash "''w''" small_tree "[''a.txt'', ''b.txt'']"
      mixed_catalog "[''b.txt'', ''c.txt'']"
      "\<lparr>fc_Path = ''a.txt'', fc_Operation = ''CREATE'', fc_FileInfo = Some info_a\<rparr>"]
    order_small o2 c
  show ?thesis by blast
qed

text \<open>
  Claim C6 as stated fails: \<open>a.txt\<close> is walked and its record is tombstoned, and the only
  change reported is the CREATE of \<open>b.txt\<close>.
\<close>

theorem reconcile_tombstoned_counterexample:
  "range_order (currentFiles toy_hash ''w'' small_tree) [''a.txt'', ''b.txt''] \<and>
   range_order (md_Files tomb_catalog) [''a.txt''] \<and>
   currentFiles toy_hash ''w'' small_tree ''a.txt'' = Some info_a \<and>
   map_option fi_IsDeleted (md_Files tomb_catalog ''a.txt'') = Some True \<and>
   DetectChanges toy_hash ''w'' small_tree tomb_catalog [''a.txt'', ''b.txt''] [''a.txt''] =
     [\<lparr>fc_Path = ''b.txt'', fc_Operation = ''CREATE'', fc_FileInfo = Some info_b\<rparr>]"
proof -
  have o2: "range_order (md_Files tomb_catalog) [''a.txt'']"
    by (auto simp: range_order_def tomb_catalog_def)
  have d: "DetectChanges toy_hash ''w'' small_tree tomb_catalog [''a.txt'', ''b.txt''] [''a.txt''] =
     [\<lparr>fc_Path = ''b.txt'', fc_Operation = ''CREATE'', fc_FileInfo = Some info_b\<rparr>]"
    by (simp add: DetectChanges_def cur_small new_or_modified_def deleted_change_def
        tomb_catalog_def)
  show ?thesis
    using order_small o2 d by (simp add: cur_small tomb_catalog_def)
qed

lemma SaveMetadata_saved:
  assumes "SaveMetadata env b m disk = (res, m', disk')"
  shows "(res = Inr () \<longrightarrow> bd_catalog disk' = Stored m') \<and>
         (res \<noteq> Inr () \<longrightarrow> bd_catalog disk' = bd_catalog disk) \<and>
         bd_files disk' = bd_files disk \<and> md_Files m' = md_Files m \<and> md_Chunks m' = md_Chunks m"
proof (cases "EnsureDirectoryExists env b")
  case (Inl err)
  with assms show ?thesis by (auto simp: SaveMetadata_def)
next
  case (Inr u)
  with assms show ?thesis
    by (auto simp: SaveMetadata_def Let_def split: if_splits)
qed

lemma handleChanges_saved:
  assumes "fst (handleChanges H t env e disk changes) = Inr ()"
  shows "bd_catalog (snd (snd (handleChanges H t env e disk changes))) =
           Stored (e_metadata (fst (snd (handleChanges H t env e disk changes))))"
proof -
  obtain files m1 where f: "foldl (classify (e_watchPath e)) ([], e_metadata e) changes = (files, m1)"
    by (cases "foldl (classify (e_watchPath e)) ([], e_metadata e) changes") auto
  let ?e1 = "e\<lparr>e_metadata := m1\<rparr>"
  have sv: "fst (case SaveMetadata env (e_backupPath e2) (e_metadata e2) d2 of
               (res, m3, disk3) \<Rightarrow> (res, e2\<lparr>e_metadata := m3\<rparr>, disk3)) = Inr () \<Longrightarrow>
      bd_catalog (snd (snd (case SaveMetadata env (e_backupPath e2) (e_metadata e2) d2 of
               (res, m3, disk3) \<Rightarrow> (res, e2\<lparr>e_metadata := m3\<rparr>, disk3)))) =
      Stored (e_metadata (fst (snd (case SaveMetadata env (e_backupPath e2) (e_metadata e2) d2 of
               (res, m3, disk3) \<Rightarrow> (res, e2\<lparr>e_metadata := m3\<rparr>, disk3)))))" for e2 d2
  proof -
    obtain res m3 d3 where s: "SaveMetadata env (e_backupPath e2) (e_metadata e2) d2 = (res, m3, d3)"
      by (cases "SaveMetadata env (e_backupPath e2) (e_metadata e2) d2") auto
    assume "fst (case SaveMetadata env (e_backupPath e2) (e_metadata e2) d2 of
               (res, m3, disk3) \<Rightarrow> (res, e2\<lparr>e_metadata := m3\<rparr>, disk3)) = Inr ()"
    then show ?thesis
      using SaveMetadata_saved[OF s] by (simp add: s)
  qed
  show ?thesis
  proof (cases "files = []")
    case True
    then show ?thesis
      using assms sv[of ?e1 disk] by (simp add: handleChanges_def f)
  next
    case False
    obtain res e2 d2 where cb: "createBackupChunks H t env ?e1 disk files = (res, e2, d2)"
      by (cases "createBackupChunks H t env ?e1 disk files") auto
    show ?thesis
    proof (cases res)
      case (Inl err)
      then show ?thesis using assms False cb by (simp add: handleChanges_def f)
    next
      case (Inr u)
      then show ?thesis using assms False cb sv[of e2 d2] by (simp add: handleChanges_def f)
    qed
  qed
qed

text \<open>
  Claim C7. After a full backup (reconcile, then one batch on its changes), whatever the
  batch returned, a second reconcile of the same tree reports no change, in whatever order
  the maps are visited; and when the batch succeeded, the catalog file holds the very
  catalog the second reconcile compares with.
\<close>

theorem reconcile_idempotent:
  "range_order (currentFiles H (e_watchPath e) t) ord1 \<and>
   range_order (md_Files (e_metadata e)) ord2 \<longrightarrow>
     DetectChanges H (e_watchPath e) t
       (e_metadata (fst (snd (PerformFullBackup H t env ord1 ord2 e disk)))) ord1' ord2' = [] \<and>
     (fst (PerformFullBackup H t env ord1 ord2 e disk) = Inr () \<longrightarrow>
        bd_catalog (snd (snd (PerformFullBackup H t env ord1 ord2 e disk))) =
          Stored (e_metadata (fst (snd (PerformFullBackup H t env ord1 ord2 e disk)))))"
proof (intro impI conjI)
  assume a: "range_order (currentFiles H (e_watchPath e) t) ord1 \<and>
     range_order (md_Files (e_metadata e)) ord2"
  have "e_watchPath (fst (snd (PerformFullBackup H t env ord1 ord2 e disk))) = e_watchPath e"
    using handleChanges_marks by (simp add: PerformFullBackup_def)
  with reconcile_after_backup[of H e t ord1 ord2 env disk ord1' ord2'] a
  show "DetectChanges H (e_watchPath e) t
       (e_metadata (fst (snd (PerformFullBackup H t env ord1 ord2 e disk)))) ord1' ord2' = []"
    by simp
next
  assume "fst (PerformFullBackup H t env ord1 ord2 e disk) = Inr ()"
  then show "bd_catalog (snd (snd (PerformFullBackup H t env ord1 ord2 e disk))) =
          Stored (e_metadata (fst (snd (PerformFullBackup H t env ord1 ord2 e disk))))"
    using handleChanges_saved by (simp add: PerformFullBackup_def)
qed

text \<open>The instance of C7 on a fresh engine and a tree of two files.\<close>

theorem reconcile_idempotent_witness:
  "DetectChanges toy_hash ''w'' small_tree (e_metadata (NewEngine 0 ''w'' ''b''))
      [''a.txt'', ''b.txt''] [] \<noteq> [] \<and>
   DetectChanges toy_hash ''w'' small_tree
      (e_metadata (fst (snd (PerformFullBackup toy_hash small_tree ok_env [''a.txt'', ''b.txt''] []
          (NewEngine 0 ''w'' ''b'') empty_dir))))
      [''a.txt'', ''b.txt''] [''a.txt'', ''b.txt''] = []"
proof -
  let ?e = "NewEngine 0 ''w'' ''b''"
  have w: "e_watchPath ?e = ''w''"
    by (simp add: NewEngine_def)
  have h: "range_order (currentFiles toy_hash (e_watchPath ?e) small_tree) [''a.txt'', ''b.txt''] \<and>
      range_order (md_Files (e_metadata ?e)) []"
    using order_small by (simp add: w) (simp add: NewEngine_def NewManager_def range_order_def)
  have first: "DetectChanges toy_hash ''w'' small_tree (e_metadata ?e) [''a.txt'', ''b.txt''] [] \<noteq> []"
    by (simp add: DetectChanges_def cur_small new_or_modified_def NewEngine_def NewManager_def)
  from reconcile_idempotent[of toy_hash ?e small_tree "[''a.txt'', ''b.txt'']" "[]" ok_env
      empty_dir "[''a.txt'', ''b.txt'']" "[''a.txt'', ''b.txt'']"] h first
  show ?thesis by (simp add: w)
qed

subsection \<open>Chunk file names\<close>

lemma undigits_snoc: "undigits (s @ [c]) = 10 * undigits s + (of_char c - 48)"
  by (simp add: undigits_def)

lemma digit_char_val: "d < 10 \<Longrightarrow> of_char (digit_char d) - 48 = d"
  by (simp add: digit_char_def)

lemma undigits_digits: "undigits (digits n) = n"
proof (induction n rule: digits.induct)
  case (1 n)
  show ?case
  proof (cases "n < 10")
    case True
    then show ?thesis
      by (subst digits.simps) (simp add: undigits_def digit_char_val)
  next
    case False
    then have "undigits (digits (n div 10)) = n div 10" using "1" by simp
    with False show ?thesis
      by (subst digits.simps) (simp add: undigits_snoc digit_char_val)
  qed
qed

lemma undigits_zeros: "foldl (\<lambda>a c. 10 * a + (of_char c - 48)) 0 (replicate k (CHR ''0'')) = (0::nat)"
  by (induction k) simp_all

lemma undigits_zero_pad: "undigits (zero_pad w s) = undigits s"
  by (simp add: zero_pad_def undigits_def undigits_zeros)

lemma fmt_06d_inj: "0 \<le> i \<Longrightarrow> 0 \<le> j \<Longrightarrow> fmt_06d i = fmt_06d j \<Longrightarrow> i = j"
proof -
  assume a: "0 \<le> i" "0 \<le> j" "fmt_06d i = fmt_06d j"
  then have "undigits (zero_pad 6 (digits (nat i))) = undigits (zero_pad 6 (digits (nat j)))"
    by (simp add: fmt_06d_def)
  then have "nat i = nat j"
    by (simp add: undigits_zero_pad undigits_digits)
  with a show ?thesis by simp
qed

lemma chunk_path_inj:
  "0 \<le> i \<Longrightarrow> 0 \<le> j \<Longrightarrow> Join b (chunk_filename i) = Join b (chunk_filename j) \<Longrightarrow> i = j"
  by (simp add: Join_def chunk_filename_def fmt_06d_inj)

subsection \<open>Batches\<close>

lemma store_chunk_frame:
  assumes "store_chunk env w b (m, disk) chunk = (res, m', disk')"
  shows "bd_catalog disk' = bd_catalog disk \<and> bd_tmp disk' = bd_tmp disk \<and>
         (\<forall>p. p \<noteq> chunk_path b chunk \<longrightarrow> bd_files disk' p = bd_files disk p)"
  using assms
  by (auto simp: store_chunk_def chunk_path_def Let_def split: option.splits if_splits)

lemma store_chunk_result:
  assumes "store_chunk env w b (m, disk) chunk = (res, m', disk')"
  shows "(store_ok env b chunk \<longrightarrow>
            res = Inr () \<and> bd_files disk' (chunk_path b chunk) = env_compress env (cd_Data chunk)) \<and>
         (\<not> store_ok env b chunk \<longrightarrow> (\<exists>err. res = Inl err))"
  using assms
  by (auto simp: store_chunk_def store_ok_def chunk_path_def Let_def split: option.splits if_splits)

lemma store_chunks_frame:
  "store_chunks env w b (m, disk) chunks = (res, m', disk') \<Longrightarrow>
   bd_catalog disk' = bd_catalog disk \<and> bd_tmp disk' = bd_tmp disk \<and>
   (\<forall>p. p \<notin> chunk_path b ` set chunks \<longrightarrow> bd_files disk' p = bd_files disk p)"
proof (induction chunks arbitrary: m disk)
  case Nil
  then show ?case by simp
next
  case (Cons chunk chunks)
  obtain r1 m1 d1 where sc: "store_chunk env w b (m, disk) chunk = (r1, m1, d1)"
    by (cases "store_chunk env w b (m, disk) chunk") auto
  note fr = store_chunk_frame[OF sc]
  show ?case
  proof (cases r1)
    case (Inl err)
    with Cons.prems sc have "disk' = d1" by simp
    with fr show ?thesis by simp
  next
    case (Inr u)
    with Cons.prems sc have "store_chunks env w b (m1, d1) chunks = (res, m', disk')" by simp
    from Cons.IH[OF this] fr show ?thesis by simp
  qed
qed

lemma store_chunks_result:
  "store_chunks env w b (m, disk) chunks = (res, m', disk') \<Longrightarrow>
   (res = Inr ()) = (\<forall>c \<in> set chunks. store_ok env b c) \<and> (res \<noteq> Inr () \<longrightarrow> (\<exists>err. res = Inl err))"
proof (induction chunks arbitrary: m disk)
  case Nil
  then show ?case by simp
next
  case (Cons chunk chunks)
  obtain r1 m1 d1 where sc: "store_chunk env w b (m, disk) chunk = (r1, m1, d1)"
    by (cases "store_chunk env w b (m, disk) chunk") auto
  note sr = store_chunk_result[OF sc]
  show ?case
  proof (cases "store_ok env b chunk")
    case True
    with sr have r1: "r1 = Inr ()" by simp
    with Cons.prems sc have "store_chunks env w b (m1, d1) chunks = (res, m', disk')" by simp
    from Cons.IH[OF this] True show ?thesis by simp
  next
    case False
    with sr obtain err where "r1 = Inl err" by auto
    with Cons.prems sc have "res = Inl err" by simp
    with False show ?thesis by simp
  qed
qed

lemma store_chunks_prefix:
  "store_chunks env w b (m, disk) (pre @ rest) = (res, m', disk') \<Longrightarrow>
   \<forall>c \<in> set pre. store_ok env b c \<Longrightarrow> distinct (map (chunk_path b) (pre @ rest)) \<Longrightarrow>
   \<forall>c \<in> set pre. bd_files disk' (chunk_path b c) = env_compress env (cd_Data c)"
proof (induction pre arbitrary: m disk)
  case Nil
  then show ?case by simp
next
  case (Cons chunk pre)
  obtain r1 m1 d1 where sc: "store_chunk env w b (m, disk) chunk = (r1, m1, d1)"
    by (cases "store_chunk env w b (m, disk) chunk") auto
  have ok: "store_ok env b chunk" using Cons.prems(2) by simp
  with store_chunk_result[OF sc]
  have r1: "r1 = Inr ()" and w1: "bd_files d1 (chunk_path b chunk) = env_compress env (cd_Data chunk)"
    by simp_all
  from Cons.prems(1) sc r1
  have rest: "store_chunks env w b (m1, d1) (pre @ rest) = (res, m', disk')" by simp
  have notin: "chunk_path b chunk \<notin> chunk_path b ` set (pre @ rest)"
    using Cons.prems(3) by auto
  with store_chunks_frame[OF rest] w1
  have here: "bd_files disk' (chunk_path b chunk) = env_compress env (cd_Data chunk)" by simp
  have "\<forall>c \<in> set pre. bd_files disk' (chunk_path b c) = env_compress env (cd_Data c)"
    using Cons.IH[OF rest] Cons.prems(2,3) by simp
  with here show ?case by simp
qed

lemma CreateChunks_nil: "fst (CreateChunks H t c []) = []"
  by (simp add: CreateChunks_def pack_init_def pack_finish_def new_chunk_def)

lemma handleChanges_disk:
  obtains res_s m_s d_s where
    "store_chunks env (e_watchPath e) (e_backupPath e)
        (snd (foldl (classify (e_watchPath e)) ([], e_metadata e) changes), disk)
        (batch_chunks H t e changes) = (res_s, m_s, d_s)"
    and "(\<exists>err. res_s = Inl err \<and>
            fst (handleChanges H t env e disk changes) = Inl (ErrCreateBackupChunks err) \<and>
            snd (snd (handleChanges H t env e disk changes)) = d_s) \<or>
         (res_s = Inr () \<and>
            (\<exists>m. fst (handleChanges H t env e disk changes) =
                    fst (SaveMetadata env (e_backupPath e) m d_s) \<and>
                 snd (snd (handleChanges H t env e disk changes)) =
                    snd (snd (SaveMetadata env (e_backupPath e) m d_s)) \<and>
                 e_metadata (fst (snd (handleChanges H t env e disk changes))) =
                    fst (snd (SaveMetadata env (e_backupPath e) m d_s))))"
proof -
  obtain files m1 where f: "foldl (classify (e_watchPath e)) ([], e_metadata e) changes = (files, m1)"
    by (cases "foldl (classify (e_watchPath e)) ([], e_metadata e) changes") auto
  then have ftb: "filesToBackup e changes = files" by (simp add: filesToBackup_def)
  let ?e1 = "e\<lparr>e_metadata := m1\<rparr>"
  obtain chunks c' where cc: "CreateChunks H t (e_chunkID e) files = (chunks, c')"
    by (cases "CreateChunks H t (e_chunkID e) files") auto
  then have bc: "batch_chunks H t e changes = chunks" by (simp add: batch_chunks_def ftb)
  obtain res_s m_s d_s where sc:
    "store_chunks env (e_watchPath e) (e_backupPath e) (m1, disk) chunks = (res_s, m_s, d_s)"
    by (cases "store_chunks env (e_watchPath e) (e_backupPath e) (m1, disk) chunks") auto
  have sv: "\<exists>m. fst (case SaveMetadata env (e_backupPath e2) (e_metadata e2) d2 of
               (res, m3, disk3) \<Rightarrow> (res, e2\<lparr>e_metadata := m3\<rparr>, disk3)) =
                  fst (SaveMetadata env (e_backupPath e2) m d2) \<and>
           snd (snd (case SaveMetadata env (e_backupPath e2) (e_metadata e2) d2 of
               (res, m3, disk3) \<Rightarrow> (res, e2\<lparr>e_metadata := m3\<rparr>, disk3))) =
                  snd (snd (SaveMetadata env (e_backupPath e2) m d2)) \<and>
           e_metadata (fst (snd (case SaveMetadata env (e_backupPath e2) (e_metadata e2) d2 of
               (res, m3, disk3) \<Rightarrow> (res, e2\<lparr>e_metadata := m3\<rparr>, disk3)))) =
                  fst (snd (SaveMetadata env (e_backupPath e2) m d2))" for e2 d2
    by (rule exI[of _ "e_metadata e2"])
       (cases "SaveMetadata env (e_backupPath e2) (e_metadata e2) d2", simp)
  have "(\<exists>err. res_s = Inl err \<and>
            fst (handleChanges H t env e disk changes) = Inl (ErrCreateBackupChunks err) \<and>
            snd (snd (handleChanges H t env e disk changes)) = d_s) \<or>
         (res_s = Inr () \<and>
            (\<exists>m. fst (handleChanges H t env e disk changes) =
                    fst (SaveMetadata env (e_backupPath e) m d_s) \<and>
                 snd (snd (handleChanges H t env e disk changes)) =
                    snd (snd (SaveMetadata env (e_backupPath e) m d_s)) \<and>
                 e_metadata (fst (snd (handleChanges H t env e disk changes))) =
                    fst (snd (SaveMetadata env (e_backupPath e) m d_s))))"
  proof (cases "files = []")
    case True
    then have "chunks = []" using cc CreateChunks_nil[of H t "e_chunkID e"] by simp
    with sc have "res_s = Inr ()" "d_s = disk" by simp_all
    then show ?thesis
      using True sv[of ?e1 disk] by (simp add: handleChanges_def f)
  next
    case False
    show ?thesis
    proof (cases res_s)
      case (Inl err)
      then show ?thesis
        using False by (simp add: handleChanges_def f createBackupChunks_def cc sc)
    next
      case (Inr u)
      then show ?thesis
        using False sv[of "e\<lparr>e_metadata := m_s, e_chunkID := c'\<rparr>" d_s]
        by (simp add: handleChanges_def f createBackupChunks_def cc sc)
    qed
  qed
  then show ?thesis
    using that[of res_s m_s d_s] sc f bc by simp
qed

lemma batch_paths_distinct:
  assumes "0 \<le> e_chunkID e" "e_chunkID e + 1 + int (length (filesToBackup e changes)) < 2 ^ 63"
  shows "distinct (map (chunk_path b) (batch_chunks H t e changes))"
proof -
  let ?chunks = "batch_chunks H t e changes"
  have ids: "sorted_wrt (<) (map cd_ID ?chunks)" "\<forall>ch \<in> set ?chunks. 0 \<le> cd_ID ch"
    using CreateChunks_ids[of "e_chunkID e" "filesToBackup e changes" H t] assms
    by (auto simp: batch_chunks_def)
  then have d: "distinct (map cd_ID ?chunks)"
    using strict_sorted_iff by blast
  then have "distinct ?chunks" "inj_on cd_ID (set ?chunks)"
    by (simp_all add: distinct_map)
  moreover have "inj_on (chunk_path b) (set ?chunks)"
  proof (rule inj_onI)
    fix x y assume xy: "x \<in> set ?chunks" "y \<in> set ?chunks" "chunk_path b x = chunk_path b y"
    then have "cd_ID x = cd_ID y"
      using ids(2) chunk_path_inj[of "cd_ID x" "cd_ID y" b] by (simp add: chunk_path_def)
    with xy \<open>inj_on cd_ID (set ?chunks)\<close> show "x = y" by (simp add: inj_on_def)
  qed
  ultimately show ?thesis by (simp add: distinct_map)
qed

text \<open>
  Claim C9. A batch returns success only when every chunk of the batch was compressed and
  written, and then the catalog file holds the catalog of the engine. When some chunk of
  the batch cannot be compressed or written, the batch returns the error of
  \<open>createBackupChunks\<close>; whenever the batch returns an error the catalog file is the one
  from before. The chunks stored before the failing one keep, in their files, exactly
  their compressed bytes.
\<close>

theorem batch_atomicity:
  "(fst (handleChanges H t env e disk changes) = Inr () \<longrightarrow>
      (\<forall>c \<in> set (batch_chunks H t e changes). store_ok env (e_backupPath e) c) \<and>
      bd_catalog (snd (snd (handleChanges H t env e disk changes))) =
        Stored (e_metadata (fst (snd (handleChanges H t env e disk changes))))) \<and>
   ((\<exists>c \<in> set (batch_chunks H t e changes). \<not> store_ok env (e_backupPath e) c) \<longrightarrow>
      (\<exists>err. fst (handleChanges H t env e disk changes) = Inl (ErrCreateBackupChunks err))) \<and>
   (fst (handleChanges H t env e disk changes) \<noteq> Inr () \<longrightarrow>
      bd_catalog (snd (snd (handleChanges H t env e disk changes))) = bd_catalog disk) \<and>
   (0 \<le> e_chunkID e \<and> e_chunkID e + 1 + int (length (filesToBackup e changes)) < 2 ^ 63 \<and>
    batch_chunks H t e changes = pre @ bad # post \<and>
    (\<forall>c \<in> set pre. store_ok env (e_backupPath e) c) \<and> \<not> store_ok env (e_backupPath e) bad \<longrightarrow>
      (\<forall>c \<in> set pre.
          bd_files (snd (snd (handleChanges H t env e disk changes))) (chunk_path (e_backupPath e) c) =
            env_compress env (cd_Data c)))"
proof -
  let ?res = "handleChanges H t env e disk changes"
  let ?b = "e_backupPath e"
  let ?chunks = "batch_chunks H t e changes"
  obtain res_s m_s d_s where
    sc: "store_chunks env (e_watchPath e) ?b
        (snd (foldl (classify (e_watchPath e)) ([], e_metadata e) changes), disk) ?chunks
          = (res_s, m_s, d_s)"
    and alt: "(\<exists>err. res_s = Inl err \<and> fst ?res = Inl (ErrCreateBackupChunks err) \<and>
            snd (snd ?res) = d_s) \<or>
         (res_s = Inr () \<and>
            (\<exists>m. fst ?res = fst (SaveMetadata env ?b m d_s) \<and>
                 snd (snd ?res) = snd (snd (SaveMetadata env ?b m d_s)) \<and>
                 e_metadata (fst (snd ?res)) = fst (snd (SaveMetadata env ?b m d_s))))"
    by (rule handleChanges_disk)
  note fr = store_chunks_frame[OF sc]
  note rs = store_chunks_result[OF sc]
  have saved: "\<And>m. bd_files (snd (snd (SaveMetadata env ?b m d_s))) = bd_files d_s"
    "\<And>m. fst (SaveMetadata env ?b m d_s) = Inr () \<longrightarrow>
        bd_catalog (snd (snd (SaveMetadata env ?b m d_s))) = Stored (fst (snd (SaveMetadata env ?b m d_s)))"
    "\<And>m. fst (SaveMetadata env ?b m d_s) \<noteq> Inr () \<longrightarrow>
        bd_catalog (snd (snd (SaveMetadata env ?b m d_s))) = bd_catalog d_s"
    using SaveMetadata_saved[of env ?b _ d_s] by (metis prod.collapse)+
  have p1: "fst ?res = Inr () \<longrightarrow> (\<forall>c \<in> set ?chunks. store_ok env ?b c) \<and>
      bd_catalog (snd (snd ?res)) = Stored (e_metadata (fst (snd ?res)))"
    using alt rs saved(2) by auto
  have p2: "(\<exists>c \<in> set ?chunks. \<not> store_ok env ?b c) \<longrightarrow>
      (\<exists>err. fst ?res = Inl (ErrCreateBackupChunks err))"
    using alt rs by auto
  have p3: "fst ?res \<noteq> Inr () \<longrightarrow> bd_catalog (snd (snd ?res)) = bd_catalog disk"
    using alt fr saved(3) by auto
  have files: "bd_files (snd (snd ?res)) = bd_files d_s"
    using alt saved(1) by auto
  have p4: "0 \<le> e_chunkID e \<and> e_chunkID e + 1 + int (length (filesToBackup e changes)) < 2 ^ 63 \<and>
    ?chunks = pre @ bad # post \<and>
    (\<forall>c \<in> set pre. store_ok env ?b c) \<and> \<not> store_ok env ?b bad \<longrightarrow>
      (\<forall>c \<in> set pre. bd_files (snd (snd ?res)) (chunk_path ?b c) = env_compress env (cd_Data c))"
  proof
    assume a: "0 \<le> e_chunkID e \<and> e_chunkID e + 1 + int (length (filesToBackup e changes)) < 2 ^ 63 \<and>
      ?chunks = pre @ bad # post \<and>
      (\<forall>c \<in> set pre. store_ok env ?b c) \<and> \<not> store_ok env ?b bad"
    then have dist: "distinct (map (chunk_path ?b) (pre @ bad # post))"
      using batch_paths_distinct[of e changes ?b H t] by simp
    from sc a have "store_chunks env (e_watchPath e) ?b
        (snd (foldl (classify (e_watchPath e)) ([], e_metadata e) changes), disk) (pre @ bad # post)
          = (res_s, m_s, d_s)" by simp
    from store_chunks_prefix[OF this _ dist] a
    have "\<forall>c \<in> set pre. bd_files d_s (chunk_path ?b c) = env_compress env (cd_Data c)" by simp
    with files show "\<forall>c \<in> set pre.
        bd_files (snd (snd ?res)) (chunk_path ?b c) = env_compress env (cd_Data c)" by simp
  qed
  from p1 p2 p3 p4 show ?thesis by blast
qed

lemma chunk_names: "Join ''b'' (chunk_filename 1) = ''b/chunk_000001.gz''"
  "Join ''b'' (chunk_filename 2) = ''b/chunk_000002.gz''"
  by code_simp+

lemma two_creates_files:
  "filesToBackup (NewEngine 0 ''w'' ''b'') two_creates = [''w/a.txt'', ''w/b.txt'']"
  by (simp add: filesToBackup_def two_creates_def classify_def NewEngine_def Join_def)

lemma two_creates_chunks:
  "batch_chunks toy_hash big_tree (NewEngine 0 ''w'' ''b'') two_creates =
     [\<lparr>cd_ID = 1, cd_Data = replicate 2097152 0,
       cd_Files = [file_entry toy_hash ''w/a.txt'' 0 (replicate 2097152 0)],
       cd_Hash = toy_hash (replicate 2097152 0)\<rparr>] @
     \<lparr>cd_ID = 2, cd_Data = replicate 4194304 0,
       cd_Files = [file_entry toy_hash ''w/b.txt'' 0 (replicate 4194304 0)],
       cd_Hash = toy_hash (replicate 4194304 0)\<rparr> # []"
proof -
  have a: "add64 1 1 = 2" by (simp add: add64_def wrap64_def)
  have "CreateChunks toy_hash big_tree 1 [''w/a.txt'', ''w/b.txt''] =
    ([\<lparr>cd_ID = 1, cd_Data = replicate 2097152 0,
       cd_Files = [file_entry toy_hash ''w/a.txt'' 0 (replicate 2097152 0)],
       cd_Hash = toy_hash (replicate 2097152 0)\<rparr>,
      \<lparr>cd_ID = add64 1 1, cd_Data = replicate 4194304 0,
       cd_Files = [file_entry toy_hash ''w/b.txt'' 0 (replicate 4194304 0)],
       cd_Hash = toy_hash (replicate 4194304 0)\<rparr>], add64 (add64 1 1) 1)"
    by (rule two_files_scenario[where ma = 5 and mb = 6]) (simp_all add: big_tree_def)
  then show ?thesis
    by (simp add: batch_chunks_def two_creates_files a) (simp add: NewEngine_def NewChunker_def a)
qed

text \<open>
  The instance of C9 on a batch of two chunks: with the write of the second chunk
  failing, and with nothing failing.
\<close>

theorem batch_atomicity_witness:
  "(\<exists>err. fst (handleChanges toy_hash big_tree fail_env (NewEngine 0 ''w'' ''b'') empty_dir two_creates)
       = Inl (ErrCreateBackupChunks err)) \<and>
   bd_catalog (snd (snd (handleChanges toy_hash big_tree fail_env (NewEngine 0 ''w'' ''b'')
       empty_dir two_creates))) = Absent \<and>
   bd_files (snd (snd (handleChanges toy_hash big_tree fail_env (NewEngine 0 ''w'' ''b'')
       empty_dir two_creates))) ''b/chunk_000001.gz'' = Some (replicate 2097152 0) \<and>
   bd_catalog (snd (snd (handleChanges toy_hash big_tree ok_env (NewEngine 0 ''w'' ''b'')
       empty_dir two_creates))) =
     Stored (e_metadata (fst (snd (handleChanges toy_hash big_tree ok_env (NewEngine 0 ''w'' ''b'')
       empty_dir two_creates))))"
proof -
  let ?e = "NewEngine 0 ''w'' ''b''"
  let ?c1 = "\<lparr>cd_ID = 1, cd_Data = replicate 2097152 0,
       cd_Files = [file_entry toy_hash ''w/a.txt'' 0 (replicate 2097152 0)],
       cd_Hash = toy_hash (replicate 2097152 0)\<rparr>"
  let ?c2 = "\<lparr>cd_ID = 2, cd_Data = replicate 4194304 0,
       cd_Files = [file_entry toy_hash ''w/b.txt'' 0 (replicate 4194304 0)],
       cd_Hash = toy_hash (replicate 4194304 0)\<rparr>"
  let ?bad = "handleChanges toy_hash big_tree fail_env ?e empty_dir two_creates"
  let ?good = "handleChanges toy_hash big_tree ok_env ?e empty_dir two_creates"
  have e: "e_backupPath ?e = ''b''" "e_chunkID ?e = 1"
    by (simp_all add: NewEngine_def NewChunker_def)
  have ok1: "store_ok fail_env ''b'' ?c1" and bad2: "\<not> store_ok fail_env ''b'' ?c2"
    by (simp_all add: store_ok_def chunk_path_def chunk_names fail_env_def ok_env_def)
  have h4: "0 \<le> e_chunkID ?e \<and> e_chunkID ?e + 1 + int (length (filesToBackup ?e two_creates)) < 2 ^ 63 \<and>
      batch_chunks toy_hash big_tree ?e two_creates = [?c1] @ ?c2 # [] \<and>
      (\<forall>c \<in> set [?c1]. store_ok fail_env (e_backupPath ?e) c) \<and>
      \<not> store_ok fail_env (e_backupPath ?e) ?c2"
    using ok1 bad2 two_creates_chunks by (simp add: e two_creates_files)
  then have h2: "\<exists>c \<in> set (batch_chunks toy_hash big_tree ?e two_creates).
      \<not> store_ok fail_env (e_backupPath ?e) c"
    by auto
  note bad = batch_atomicity[of toy_hash big_tree fail_env ?e empty_dir two_creates "[?c1]" ?c2 "[]"]
  from bad h2 have r: "\<exists>err. fst ?bad = Inl (ErrCreateBackupChunks err)" by blast
  then have "fst ?bad \<noteq> Inr ()" by auto
  with bad have cat: "bd_catalog (snd (snd ?bad)) = bd_catalog empty_dir" by blast
  from bad h4 have "\<forall>c \<in> set [?c1].
      bd_files (snd (snd ?bad)) (chunk_path (e_backupPath ?e) c) = env_compress fail_env (cd_Data c)"
    by blast
  then have file1: "bd_files (snd (snd ?bad)) ''b/chunk_000001.gz'' = Some (replicate 2097152 0)"
    by (simp add: e chunk_path_def chunk_names fail_env_def ok_env_def)
  have "store_ok ok_env ''b'' ?c1" "store_ok ok_env ''b'' ?c2"
    by (simp_all add: store_ok_def ok_env_def)
  then have allok: "\<forall>c \<in> set (batch_chunks toy_hash big_tree ?e two_creates).
      store_ok ok_env (e_backupPath ?e) c"
    by (simp add: two_creates_chunks e)
  obtain res_s m_s d_s where
    sc: "store_chunks ok_env (e_watchPath ?e) (e_backupPath ?e)
        (snd (foldl (classify (e_watchPath ?e)) ([], e_metadata ?e) two_creates), empty_dir)
        (batch_chunks toy_hash big_tree ?e two_creates) = (res_s, m_s, d_s)"
    and alt: "(\<exists>err. res_s = Inl err \<and> fst ?good = Inl (ErrCreateBackupChunks err) \<and>
            snd (snd ?good) = d_s) \<or>
         (res_s = Inr () \<and>
            (\<exists>m. fst ?good = fst (SaveMetadata ok_env (e_backupPath ?e) m d_s) \<and>
                 snd (snd ?good) = snd (snd (SaveMetadata ok_env (e_backupPath ?e) m d_s)) \<and>
                 e_metadata (fst (snd ?good)) = fst (snd (SaveMetadata ok_env (e_backupPath ?e) m d_s))))"
    by (rule handleChanges_disk)
  have "res_s = Inr ()"
    using store_chunks_result[OF sc] allok by simp
  moreover have "fst (SaveMetadata ok_env ''b'' m d_s) = Inr ()" for m
    by (simp add: SaveMetadata_def EnsureDirectoryExists_def ValidatePath_def Abs_def ok_env_def
        Let_def)
  ultimately have h1: "fst ?good = Inr ()"
    using alt by (auto simp: e)
  with batch_atomicity[of toy_hash big_tree ok_env ?e empty_dir two_creates "[]" ?c1 "[]"]
  have "bd_catalog (snd (snd ?good)) = Stored (e_metadata (fst (snd ?good)))"
    by blast
  with r cat file1 show ?thesis
    by (simp add: empty_dir_def)
qed

subsection \<open>Chunk IDs\<close>

lemma md_Chunks_add_chunk_refs: "md_Chunks (foldl (add_chunk_ref w i) m fs) = md_Chunks m"
proof (induction fs arbitrary: m)
  case Nil
  then show ?case by simp
next
  case (Cons f fs)
  have "md_Chunks (add_chunk_ref w i m f) = md_Chunks m"
    by (simp add: add_chunk_ref_def GetFileInfo_def UpdateFileInfo_def Let_def split: option.splits)
  with Cons.IH[of "add_chunk_ref w i m f"] show ?case by simp
qed

lemma store_chunk_catalogued:
  assumes "store_chunk env w b (m, disk) chunk = (res, m', disk')"
  shows "md_Chunks m' = md_Chunks m \<or>
         (\<exists>info. md_Chunks m' = md_Chunks m @ [info] \<and> ci_ID info = cd_ID chunk \<and> res = Inr ())"
  using assms
  by (auto simp: store_chunk_def Let_def md_Chunks_add_chunk_refs AddChunk_def
      split: option.splits if_splits)

lemma store_chunk_stops:
  assumes "store_chunk env w b (m, disk) chunk = (Inr (), m', disk')"
  shows "\<exists>info. md_Chunks m' = md_Chunks m @ [info] \<and> ci_ID info = cd_ID chunk"
  using assms
  by (auto simp: store_chunk_def Let_def md_Chunks_add_chunk_refs AddChunk_def
      split: option.splits if_splits)

lemma store_chunks_catalogued:
  "store_chunks env w b (m, disk) chunks = (res, m', disk') \<Longrightarrow>
   \<exists>new. md_Chunks m' = md_Chunks m @ new \<and> (\<exists>k. map ci_ID new = take k (map cd_ID chunks))"
proof (induction chunks arbitrary: m disk)
  case Nil
  then show ?case by simp
next
  case (Cons chunk chunks)
  obtain r1 m1 d1 where sc: "store_chunk env w b (m, disk) chunk = (r1, m1, d1)"
    by (cases "store_chunk env w b (m, disk) chunk") auto
  show ?case
  proof (cases r1)
    case (Inl err)
    with Cons.prems sc have "m' = m1" by simp
    moreover have "md_Chunks m1 = md_Chunks m"
      using store_chunk_catalogued[OF sc] Inl by auto
    ultimately have "md_Chunks m' = md_Chunks m @ [] \<and> map ci_ID [] = take 0 (map cd_ID (chunk # chunks))"
      by simp
    then show ?thesis by blast
  next
    case (Inr u)
    then have sc': "store_chunk env w b (m, disk) chunk = (Inr (), m1, d1)" using sc by simp
    from store_chunk_stops[OF sc'] obtain info where
      i: "md_Chunks m1 = md_Chunks m @ [info]" "ci_ID info = cd_ID chunk" by blast
    from Cons.prems sc Inr have "store_chunks env w b (m1, d1) chunks = (res, m', disk')" by simp
    from Cons.IH[OF this] obtain new k where
      n: "md_Chunks m' = md_Chunks m1 @ new" "map ci_ID new = take k (map cd_ID chunks)" by blast
    have "md_Chunks m' = md_Chunks m @ (info # new) \<and>
          map ci_ID (info # new) = take (Suc k) (map cd_ID (chunk # chunks))"
      using i n by simp
    then show ?thesis by blast
  qed
qed

lemma md_Chunks_classify: "md_Chunks (snd (classify w acc ch)) = md_Chunks (snd acc)"
  by (auto simp: classify_def UpdateFileInfo_def MarkFileDeleted_def split: option.splits)

lemma md_Chunks_classify_fold: "md_Chunks (snd (foldl (classify w) acc chs)) = md_Chunks (snd acc)"
  by (induction chs arbitrary: acc) (simp_all add: md_Chunks_classify)

lemma handleChanges_chunks:
  obtains new k where
    "md_Chunks (e_metadata (fst (snd (handleChanges H t env e disk changes)))) =
       md_Chunks (e_metadata e) @ new"
    "map ci_ID new = take k (map cd_ID (batch_chunks H t e changes))"
    "e_chunkID (fst (snd (handleChanges H t env e disk changes))) =
       (if filesToBackup e changes = [] then e_chunkID e
        else snd (CreateChunks H t (e_chunkID e) (filesToBackup e changes)))"
proof -
  obtain files m1 where f: "foldl (classify (e_watchPath e)) ([], e_metadata e) changes = (files, m1)"
    by (cases "foldl (classify (e_watchPath e)) ([], e_metadata e) changes") auto
  then have ftb: "filesToBackup e changes = files" by (simp add: filesToBackup_def)
  have m1: "md_Chunks m1 = md_Chunks (e_metadata e)"
    using md_Chunks_classify_fold[of "e_watchPath e" "([], e_metadata e)" changes] f by simp
  let ?e1 = "e\<lparr>e_metadata := m1\<rparr>"
  obtain chunks c' where cc: "CreateChunks H t (e_chunkID e) files = (chunks, c')"
    by (cases "CreateChunks H t (e_chunkID e) files") auto
  then have bc: "batch_chunks H t e changes = chunks" by (simp add: batch_chunks_def ftb)
  obtain res_s m_s d_s where sc:
    "store_chunks env (e_watchPath e) (e_backupPath e) (m1, disk) chunks = (res_s, m_s, d_s)"
    by (cases "store_chunks env (e_watchPath e) (e_backupPath e) (m1, disk) chunks") auto
  from store_chunks_catalogued[OF sc] m1 obtain new k where
    n: "md_Chunks m_s = md_Chunks (e_metadata e) @ new" "map ci_ID new = take k (map cd_ID chunks)"
    by auto
  have sv: "md_Chunks (e_metadata (fst (snd (case SaveMetadata env (e_backupPath e2) (e_metadata e2) d2 of
               (res, m3, disk3) \<Rightarrow> (res, e2\<lparr>e_metadata := m3\<rparr>, disk3))))) = md_Chunks (e_metadata e2) \<and>
            e_chunkID (fst (snd (case SaveMetadata env (e_backupPath e2) (e_metadata e2) d2 of
               (res, m3, disk3) \<Rightarrow> (res, e2\<lparr>e_metadata := m3\<rparr>, disk3)))) = e_chunkID e2" for e2 d2
  proof -
    obtain res m3 d3 where s: "SaveMetadata env (e_backupPath e2) (e_metadata e2) d2 = (res, m3, d3)"
      by (cases "SaveMetadata env (e_backupPath e2) (e_metadata e2) d2") auto
    from SaveMetadata_saved[OF s] show ?thesis by (simp add: s)
  qed
  show ?thesis
  proof (cases "files = []")
    case True
    then have "md_Chunks (e_metadata (fst (snd (handleChanges H t env e disk changes)))) =
        md_Chunks (e_metadata e) @ []"
      and "e_chunkID (fst (snd (handleChanges H t env e disk changes))) = e_chunkID e"
      using sv[of ?e1 disk] m1 by (simp_all add: handleChanges_def f)
    with that[of "[]" 0] True ftb show ?thesis by simp
  next
    case False
    have "md_Chunks (e_metadata (fst (snd (handleChanges H t env e disk changes)))) = md_Chunks m_s \<and>
          e_chunkID (fst (snd (handleChanges H t env e disk changes))) = c'"
    proof (cases res_s)
      case (Inl err)
      then show ?thesis
        using False by (simp add: handleChanges_def f createBackupChunks_def cc sc)
    next
      case (Inr u)
      then show ?thesis
        using False sv[of "e\<lparr>e_metadata := m_s, e_chunkID := c'\<rparr>" d_s]
        by (simp add: handleChanges_def f createBackupChunks_def cc sc)
    qed
    with that[of new k] n False ftb bc cc show ?thesis by simp
  qed
qed

lemma chunk_ids_step:
  assumes ok: "chunk_ids_ok e"
    and bound: "e_chunkID e + 1 + int (length (filesToBackup e changes)) < 2 ^ 63"
  shows "chunk_ids_ok (fst (snd (handleChanges H t env e disk changes))) \<and>
     (\<exists>new. md_Chunks (e_metadata (fst (snd (handleChanges H t env e disk changes)))) =
              md_Chunks (e_metadata e) @ new \<and>
            (\<forall>c \<in> set new. \<forall>old \<in> set (md_Chunks (e_metadata e)). ci_ID old < ci_ID c))"
proof -
  let ?e' = "fst (snd (handleChanges H t env e disk changes))"
  let ?files = "filesToBackup e changes"
  let ?chunks = "batch_chunks H t e changes"
  let ?c' = "snd (CreateChunks H t (e_chunkID e) ?files)"
  obtain new k where
    n: "md_Chunks (e_metadata ?e') = md_Chunks (e_metadata e) @ new"
       "map ci_ID new = take k (map cd_ID ?chunks)"
       "e_chunkID ?e' = (if ?files = [] then e_chunkID e else ?c')"
    by (rule handleChanges_chunks)
  have c0: "0 \<le> e_chunkID e" using ok by (simp add: chunk_ids_ok_def)
  have ids: "sorted_wrt (<) (map cd_ID ?chunks)"
    "\<forall>ch \<in> set ?chunks. e_chunkID e \<le> cd_ID ch \<and> cd_ID ch < ?c'"
    "e_chunkID e < ?c'"
    using CreateChunks_ids[of "e_chunkID e" ?files H t] c0 bound
    by (auto simp: batch_chunks_def)
  have sub: "set (map ci_ID new) \<subseteq> set (map cd_ID ?chunks)"
    using n(2) by (metis set_take_subset)
  have newsorted: "sorted_wrt (<) (map ci_ID new)"
    using n(2) ids(1) by (simp add: sorted_wrt_take)
  have newbounds: "\<forall>c \<in> set new. e_chunkID e \<le> ci_ID c \<and> ci_ID c < ?c'"
    using sub ids(2) by auto
  have empty: "?files = [] \<Longrightarrow> new = []"
  proof -
    assume "?files = []"
    then have "?chunks = []" by (simp add: batch_chunks_def CreateChunks_nil)
    with n(2) show "new = []" by simp
  qed
  have old: "\<forall>c \<in> set (md_Chunks (e_metadata e)). ci_ID c < e_chunkID e"
    "sorted_wrt (<) (map ci_ID (md_Chunks (e_metadata e)))"
    using ok by (simp_all add: chunk_ids_ok_def)
  have above: "\<forall>c \<in> set new. \<forall>old \<in> set (md_Chunks (e_metadata e)). ci_ID old < ci_ID c"
    using old(1) newbounds by fastforce
  have srt: "sorted_wrt (<) (map ci_ID (md_Chunks (e_metadata ?e')))"
    using n(1) old(2) newsorted above by (auto simp: sorted_wrt_append)
  have cnt: "0 \<le> e_chunkID ?e'" "\<forall>c \<in> set (md_Chunks (e_metadata ?e')). ci_ID c < e_chunkID ?e'"
    using n(1,3) c0 ids(3) old(1) newbounds empty by (auto split: if_splits)
  show ?thesis
    using srt cnt n(1) above by (auto simp: chunk_ids_ok_def)
qed

text \<open>
  Claim C2, as amended. A new engine has no chunk at or above its counter. When the IDs in
  the chunk list are strictly increasing and below the packer's counter, a batch keeps
  this so, only appends to the chunk list, and every chunk it appends has an ID above all
  IDs that were in the list, as long as the counter cannot wrap.
\<close>

theorem chunk_ids_increasing:
  "chunk_ids_ok (NewEngine now w b) \<and>
   (chunk_ids_ok e \<and> e_chunkID e + 1 + int (length (filesToBackup e changes)) < 2 ^ 63 \<longrightarrow>
      chunk_ids_ok (fst (snd (handleChanges H t env e disk changes))) \<and>
      (\<exists>new. md_Chunks (e_metadata (fst (snd (handleChanges H t env e disk changes)))) =
               md_Chunks (e_metadata e) @ new \<and>
             (\<forall>c \<in> set new. \<forall>old \<in> set (md_Chunks (e_metadata e)). ci_ID old < ci_ID c)))"
proof
  show "chunk_ids_ok (NewEngine now w b)"
    by (simp add: chunk_ids_ok_def NewEngine_def NewManager_def NewChunker_def)
next
  show "chunk_ids_ok e \<and> e_chunkID e + 1 + int (length (filesToBackup e changes)) < 2 ^ 63 \<longrightarrow>
      chunk_ids_ok (fst (snd (handleChanges H t env e disk changes))) \<and>
      (\<exists>new. md_Chunks (e_metadata (fst (snd (handleChanges H t env e disk changes)))) =
               md_Chunks (e_metadata e) @ new \<and>
             (\<forall>c \<in> set new. \<forall>old \<in> set (md_Chunks (e_metadata e)). ci_ID old < ci_ID c))"
    using chunk_ids_step by blast
qed

lemma small_batch:
  "handleChanges toy_hash small_tree ok_env restarted old_dir two_creates =
     (Inr (),
      restarted\<lparr>e_metadata := old_catalog\<lparr>md_UpdatedAt := 100,
          md_Files := [''c.txt'' \<mapsto> \<lparr>fi_Path = ''c.txt'', fi_Size = 1, fi_ModTime = 4,
                         fi_Hash = toy_hash [3], fi_ChunkRefs = [1], fi_IsDeleted = False\<rparr>,
                       ''a.txt'' \<mapsto> info_a\<lparr>fi_ChunkRefs := [1]\<rparr>,
                       ''b.txt'' \<mapsto> info_b\<lparr>fi_ChunkRefs := [1]\<rparr>],
          md_Chunks := md_Chunks old_catalog @
            [\<lparr>ci_ID = 1, ci_Filename = ''chunk_000001.gz'', ci_Size = 2,
              ci_Hash = toy_hash [1, 2], ci_CompressedSize = 2\<rparr>]\<rparr>,
        e_chunkID := 2\<rparr>,
      \<lparr>bd_files = [''b/chunk_000001.gz'' \<mapsto> [1, 2]],
       bd_catalog = Stored (old_catalog\<lparr>md_UpdatedAt := 100,
          md_Files := [''c.txt'' \<mapsto> \<lparr>fi_Path = ''c.txt'', fi_Size = 1, fi_ModTime = 4,
                         fi_Hash = toy_hash [3], fi_ChunkRefs = [1], fi_IsDeleted = False\<rparr>,
                       ''a.txt'' \<mapsto> info_a\<lparr>fi_ChunkRefs := [1]\<rparr>,
                       ''b.txt'' \<mapsto> info_b\<lparr>fi_ChunkRefs := [1]\<rparr>],
          md_Chunks := md_Chunks old_catalog @
            [\<lparr>ci_ID = 1, ci_Filename = ''chunk_000001.gz'', ci_Size = 2,
              ci_Hash = toy_hash [1, 2], ci_CompressedSize = 2\<rparr>]\<rparr>),
       bd_tmp = Absent\<rparr>)"
proof -
  have n1: "chunk_filename 1 = ''chunk_000001.gz''" by code_simp
  have cl: "foldl (classify ''w'') ([], old_catalog) two_creates =
      ([''w/a.txt'', ''w/b.txt''],
       old_catalog\<lparr>md_Files := (md_Files old_catalog)(''a.txt'' \<mapsto> info_a, ''b.txt'' \<mapsto> info_b)\<rparr>)"
    by (simp add: two_creates_def classify_def Join_def UpdateFileInfo_def)
  have sv: "SaveMetadata ok_env ''b'' m d =
      (Inr (), m\<lparr>md_UpdatedAt := 100\<rparr>,
       d\<lparr>bd_tmp := Absent, bd_catalog := Stored (m\<lparr>md_UpdatedAt := 100\<rparr>)\<rparr>)" for m d
    by (simp add: SaveMetadata_def EnsureDirectoryExists_def ValidatePath_def Abs_def ok_env_def
        Let_def)
  have st: "store_chunks ok_env ''w'' ''b'' (m, d)
      [\<lparr>cd_ID = 1, cd_Data = [1, 2],
        cd_Files = [\<lparr>cf_Path = ''w/a.txt'', cf_Offset = 0, cf_Size = 1, cf_Hash = toy_hash [1]\<rparr>,
                    \<lparr>cf_Path = ''w/b.txt'', cf_Offset = 1, cf_Size = 1, cf_Hash = toy_hash [2]\<rparr>],
        cd_Hash = toy_hash [1, 2]\<rparr>] =
      (Inr (),
       add_chunk_ref ''w'' 1 (add_chunk_ref ''w'' 1
          (AddChunk m \<lparr>ci_ID = 1, ci_Filename = ''chunk_000001.gz'', ci_Size = 2,
              ci_Hash = toy_hash [1, 2], ci_CompressedSize = 2\<rparr>)
          \<lparr>cf_Path = ''w/a.txt'', cf_Offset = 0, cf_Size = 1, cf_Hash = toy_hash [1]\<rparr>)
          \<lparr>cf_Path = ''w/b.txt'', cf_Offset = 1, cf_Size = 1, cf_Hash = toy_hash [2]\<rparr>,
       d\<lparr>bd_files := (bd_files d)(''b/chunk_000001.gz'' \<mapsto> [1, 2])\<rparr>)" for m d
    by (simp add: store_chunk_def n1 ok_env_def Join_def Let_def)
  show ?thesis
    by (simp add: handleChanges_def restarted_def cl createBackupChunks_def small_chunks st sv
        del: store_chunks.simps)
       (simp add: add_chunk_ref_def Rel_def GetFileInfo_def UpdateFileInfo_def AddChunk_def
        old_catalog_def old_dir_def info_a_def info_b_def Let_def)
qed

text \<open>
  Claim C2 as stated fails: an engine that starts on a backup directory whose catalog
  holds chunk 1 has its counter at 1, and its next batch appends a second chunk with ID 1
  and writes over the file of the first.
\<close>

theorem chunk_id_reuse_counterexample:
  "Initialize ok_env (NewEngine 0 ''w'' ''b'') old_dir = Inr restarted \<and>
   map ci_ID (md_Chunks (e_metadata restarted)) = [1] \<and>
   map ci_ID (md_Chunks (e_metadata (fst (snd
      (handleChanges toy_hash small_tree ok_env restarted old_dir two_creates))))) = [1, 1] \<and>
   bd_files old_dir ''b/chunk_000001.gz'' = Some [3] \<and>
   bd_files (snd (snd (handleChanges toy_hash small_tree ok_env restarted old_dir two_creates)))
      ''b/chunk_000001.gz'' = Some [1, 2]"
proof -
  have "Initialize ok_env (NewEngine 0 ''w'' ''b'') old_dir = Inr restarted"
    by (simp add: Initialize_def NewEngine_def EnsureDirectoryExists_def ValidatePath_def Abs_def
        ok_env_def LoadMetadata_def old_dir_def restarted_def NewChunker_def)
  then show ?thesis
    by (simp add: small_batch) (simp add: restarted_def old_catalog_def old_dir_def)
qed

lemma small_chunks_again:
  "CreateChunks toy_hash small_tree 2 [''w/a.txt'', ''w/b.txt''] =
     ([\<lparr>cd_ID = 2, cd_Data = [1, 2],
        cd_Files = [\<lparr>cf_Path = ''w/a.txt'', cf_Offset = 0, cf_Size = 1, cf_Hash = toy_hash [1]\<rparr>,
                    \<lparr>cf_Path = ''w/b.txt'', cf_Offset = 1, cf_Size = 1, cf_Hash = toy_hash [2]\<rparr>],
        cd_Hash = toy_hash [1, 2]\<rparr>], 3)"
  by (simp add: CreateChunks_def pack_init_def pack_file_def pack_finish_def Stat_def
        ReadFile_def CalculateFileHash_def CalculateDataHash_def seals_def seal_def add_file_def
        new_chunk_def ChunkSize_def add64_def wrap64_def small_tree_def Let_def)

lemma second_batch:
  "map ci_ID (md_Chunks (e_metadata (fst (snd
      (handleChanges toy_hash small_tree ok_env backed_up backed_up_dir two_creates))))) = [1, 2] \<and>
   e_chunkID (fst (snd
      (handleChanges toy_hash small_tree ok_env backed_up backed_up_dir two_creates))) = 3"
proof -
  have n2: "chunk_filename 2 = ''chunk_000002.gz''" by code_simp
  have cl: "foldl (classify ''w'') ([], backed_up_catalog) two_creates =
      ([''w/a.txt'', ''w/b.txt''],
       backed_up_catalog\<lparr>md_Files := (md_Files backed_up_catalog)(''a.txt'' \<mapsto> info_a, ''b.txt'' \<mapsto> info_b)\<rparr>)"
    by (simp add: two_creates_def classify_def Join_def UpdateFileInfo_def)
  have sv: "SaveMetadata ok_env ''b'' m d =
      (Inr (), m\<lparr>md_UpdatedAt := 100\<rparr>,
       d\<lparr>bd_tmp := Absent, bd_catalog := Stored (m\<lparr>md_UpdatedAt := 100\<rparr>)\<rparr>)" for m d
    by (simp add: SaveMetadata_def EnsureDirectoryExists_def ValidatePath_def Abs_def ok_env_def
        Let_def)
  have st: "store_chunks ok_env ''w'' ''b'' (m, d)
      [\<lparr>cd_ID = 2, cd_Data = [1, 2],
        cd_Files = [\<lparr>cf_Path = ''w/a.txt'', cf_Offset = 0, cf_Size = 1, cf_Hash = toy_hash [1]\<rparr>,
                    \<lparr>cf_Path = ''w/b.txt'', cf_Offset = 1, cf_Size = 1, cf_Hash = toy_hash [2]\<rparr>],
        cd_Hash = toy_hash [1, 2]\<rparr>] =
      (Inr (),
       add_chunk_ref ''w'' 2 (add_chunk_ref ''w'' 2
          (AddChunk m \<lparr>ci_ID = 2, ci_Filename = ''chunk_000002.gz'', ci_Size = 2,
              ci_Hash = toy_hash [1, 2], ci_CompressedSize = 2\<rparr>)
          \<lparr>cf_Path = ''w/a.txt'', cf_Offset = 0, cf_Size = 1, cf_Hash = toy_hash [1]\<rparr>)
          \<lparr>cf_Path = ''w/b.txt'', cf_Offset = 1, cf_Size = 1, cf_Hash = toy_hash [2]\<rparr>,
       d\<lparr>bd_files := (bd_files d)(''b/chunk_000002.gz'' \<mapsto> [1, 2])\<rparr>)" for m d
    by (simp add: store_chunk_def n2 ok_env_def Join_def Let_def)
  show ?thesis
    by (simp add: handleChanges_def backed_up_def cl createBackupChunks_def small_chunks_again st sv
        del: store_chunks.simps)
       (simp add: add_chunk_ref_def Rel_def GetFileInfo_def UpdateFileInfo_def AddChunk_def
        backed_up_catalog_def Let_def)
qed

text \<open>
  The instance of C2 on a second batch: the engine whose catalog holds chunk 1 and whose
  counter is at 2 appends a chunk with ID 2.
\<close>

theorem chunk_ids_increasing_witness:
  "chunk_ids_ok backed_up \<and>
   e_chunkID backed_up + 1 + int (length (filesToBackup backed_up two_creates)) < 2 ^ 63 \<and>
   map ci_ID (md_Chunks (e_metadata backed_up)) = [1] \<and>
   chunk_ids_ok (fst (snd
      (handleChanges toy_hash small_tree ok_env backed_up backed_up_dir two_creates))) \<and>
   map ci_ID (md_Chunks (e_metadata (fst (snd
      (handleChanges toy_hash small_tree ok_env backed_up backed_up_dir two_creates))))) = [1, 2] \<and>
   (\<exists>new. md_Chunks (e_metadata (fst (snd
              (handleChanges toy_hash small_tree ok_env backed_up backed_up_dir two_creates)))) =
            md_Chunks (e_metadata backed_up) @ new \<and> new \<noteq> [] \<and>
          (\<forall>c \<in> set new. \<forall>old \<in> set (md_Chunks (e_metadata backed_up)). ci_ID old < ci_ID c))"
proof -
  let ?e' = "fst (snd (handleChanges toy_hash small_tree ok_env backed_up backed_up_dir two_creates))"
  have ok: "chunk_ids_ok backed_up"
    by (simp add: chunk_ids_ok_def backed_up_def backed_up_catalog_def)
  have files: "filesToBackup backed_up two_creates = [''w/a.txt'', ''w/b.txt'']"
    by (simp add: filesToBackup_def two_creates_def classify_def backed_up_def Join_def)
  have bound: "e_chunkID backed_up + 1 + int (length (filesToBackup backed_up two_creates)) < 2 ^ 63"
    by (simp add: files) (simp add: backed_up_def)
  have old: "map ci_ID (md_Chunks (e_metadata backed_up)) = [1]"
    by (simp add: backed_up_def backed_up_catalog_def)
  have ids: "map ci_ID (md_Chunks (e_metadata ?e')) = [1, 2]"
    using second_batch by simp
  from chunk_ids_increasing[where e = backed_up and changes = two_creates and H = toy_hash
      and t = small_tree and env = ok_env and disk = backed_up_dir] ok bound
  obtain new where step: "chunk_ids_ok ?e'"
      "md_Chunks (e_metadata ?e') = md_Chunks (e_metadata backed_up) @ new"
      "\<forall>c \<in> set new. \<forall>old \<in> set (md_Chunks (e_metadata backed_up)). ci_ID old < ci_ID c"
    by blast
  from step(2) ids old have "new \<noteq> []" by auto
  with ok bound old ids step show ?thesis by blast
qed

subsection \<open>Restore\<close>

lemma ValidateBackup_missing:
  "(\<exists>c \<in> set chunks. bd_files disk (Join b (ci_Filename c)) = None) \<Longrightarrow>
   \<exists>c \<in> set chunks. bd_files disk (Join b (ci_Filename c)) = None \<and>
      ValidateBackup b disk chunks = Inl (ErrChunkMissing (ci_Filename c))"
  by (induction chunks) auto

lemma ValidateBackup_present:
  "(\<forall>c \<in> set chunks. bd_files disk (Join b (ci_Filename c)) \<noteq> None) \<Longrightarrow>
   ValidateBackup b disk chunks = Inr ()"
  by (induction chunks) auto

lemma restoreFile_frame:
  "q \<noteq> Join tp (fi_Path fi) \<Longrightarrow> snd (restoreFile H env b tp disk tgt fi cm) q = tgt q"
  by (simp add: restoreFile_def Let_def split: sum.splits)

lemma restoreFile_local:
  "tgt1 q = tgt2 q \<Longrightarrow>
   snd (restoreFile H env b tp disk tgt1 fi cm) q = snd (restoreFile H env b tp disk tgt2 fi cm) q"
  by (simp add: restoreFile_def Let_def split: sum.splits)

lemma restoreFile_result:
  "fst (restoreFile H env b tp disk tgt1 fi cm) = fst (restoreFile H env b tp disk tgt2 fi cm)"
  by (simp add: restoreFile_def Let_def split: sum.splits)

lemma Join_inj: "Join tp x = Join tp y \<Longrightarrow> x = y"
  by (simp add: Join_def)

lemma restore_one_frame:
  assumes "map_option fi_Path (md_Files meta q) \<noteq> Some x"
  shows "restore_one H env b tp disk meta tgt q (Join tp x) = tgt (Join tp x)"
proof (cases "md_Files meta q")
  case None
  then show ?thesis by (simp add: restore_one_def)
next
  case (Some fi')
  with assms have "fi_Path fi' \<noteq> x" by simp
  then have "Join tp x \<noteq> Join tp (fi_Path fi')" using Join_inj by blast
  then show ?thesis
    using Some by (simp add: restore_one_def restoreFile_frame)
qed

lemma restore_fold_frame:
  "\<forall>q \<in> set ks. map_option fi_Path (md_Files meta q) \<noteq> Some x \<Longrightarrow>
   foldl (restore_one H env b tp disk meta) tgt ks (Join tp x) = tgt (Join tp x)"
  by (induction ks arbitrary: tgt) (simp_all add: restore_one_frame)

lemma restore_fold_file:
  assumes "distinct ord" "p \<in> set ord" "md_Files meta p = Some fi" "\<not> fi_IsDeleted fi"
    and others: "\<forall>q \<in> set ord. q \<noteq> p \<longrightarrow> map_option fi_Path (md_Files meta q) \<noteq> Some (fi_Path fi)"
  shows "foldl (restore_one H env b tp disk meta) tgt ord (Join tp (fi_Path fi)) =
         snd (restoreFile H env b tp disk tgt fi (chunk_map (md_Chunks meta))) (Join tp (fi_Path fi))"
proof -
  let ?P = "Join tp (fi_Path fi)"
  let ?step = "restore_one H env b tp disk meta"
  from assms(2) obtain pre post where sp: "ord = pre @ p # post"
    by (auto simp: in_set_conv_decomp)
  with assms(1) have np: "p \<notin> set pre" "p \<notin> set post" by auto
  have o1: "\<forall>q \<in> set pre. map_option fi_Path (md_Files meta q) \<noteq> Some (fi_Path fi)"
    and o2: "\<forall>q \<in> set post. map_option fi_Path (md_Files meta q) \<noteq> Some (fi_Path fi)"
    using others sp np by auto
  let ?t1 = "foldl ?step tgt pre"
  have a: "?t1 ?P = tgt ?P"
    using o1 by (rule restore_fold_frame)
  have b: "?step ?t1 p ?P = snd (restoreFile H env b tp disk tgt fi (chunk_map (md_Chunks meta))) ?P"
    using assms(3,4) a restoreFile_local[of ?t1 ?P tgt] by (simp add: restore_one_def)
  have "foldl ?step tgt ord ?P = foldl ?step (?step ?t1 p) post ?P"
    by (simp add: sp)
  also have "\<dots> = ?step ?t1 p ?P"
    using o2 by (rule restore_fold_frame)
  finally show ?thesis using b by simp
qed

text \<open>
  Claim C3, as amended. When the file of some chunk of the catalog is missing,
  \<open>ValidateBackup\<close> reports a missing chunk and \<open>RestoreAll\<close> returns that error with the
  target untouched. When no chunk file is missing, \<open>RestoreAll\<close> succeeds and runs per
  file: for a live file whose target path no other record shares, the target path ends
  up exactly as \<open>restoreFile\<close> of that file alone leaves it, whatever happens to the
  other files.
\<close>

theorem restore_all_contract:
  "((\<exists>c \<in> set (md_Chunks meta). bd_files disk (Join b (ci_Filename c)) = None) \<longrightarrow>
      (\<exists>c \<in> set (md_Chunks meta). bd_files disk (Join b (ci_Filename c)) = None \<and>
          ValidateBackup b disk (md_Chunks meta) = Inl (ErrChunkMissing (ci_Filename c))) \<and>
      RestoreAll H env b tp disk meta tgt ord = (ValidateBackup b disk (md_Chunks meta), tgt)) \<and>
   ((\<forall>c \<in> set (md_Chunks meta). bd_files disk (Join b (ci_Filename c)) \<noteq> None) \<and>
    range_order (md_Files meta) ord \<and> md_Files meta p = Some fi \<and> \<not> fi_IsDeleted fi \<and>
    (\<forall>q \<in> set ord. q \<noteq> p \<longrightarrow> map_option fi_Path (md_Files meta q) \<noteq> Some (fi_Path fi)) \<longrightarrow>
      fst (RestoreAll H env b tp disk meta tgt ord) = Inr () \<and>
      snd (RestoreAll H env b tp disk meta tgt ord) (Join tp (fi_Path fi)) =
        snd (restoreFile H env b tp disk tgt fi (chunk_map (md_Chunks meta)))
          (Join tp (fi_Path fi)))"
proof (intro conjI impI)
  assume a: "\<exists>c \<in> set (md_Chunks meta). bd_files disk (Join b (ci_Filename c)) = None"
  from ValidateBackup_missing[OF a]
  show "\<exists>c \<in> set (md_Chunks meta). bd_files disk (Join b (ci_Filename c)) = None \<and>
          ValidateBackup b disk (md_Chunks meta) = Inl (ErrChunkMissing (ci_Filename c))" .
  then show "RestoreAll H env b tp disk meta tgt ord = (ValidateBackup b disk (md_Chunks meta), tgt)"
    by (auto simp: RestoreAll_def)
next
  assume a: "(\<forall>c \<in> set (md_Chunks meta). bd_files disk (Join b (ci_Filename c)) \<noteq> None) \<and>
    range_order (md_Files meta) ord \<and> md_Files meta p = Some fi \<and> \<not> fi_IsDeleted fi \<and>
    (\<forall>q \<in> set ord. q \<noteq> p \<longrightarrow> map_option fi_Path (md_Files meta q) \<noteq> Some (fi_Path fi))"
  then have v: "ValidateBackup b disk (md_Chunks meta) = Inr ()"
    by (intro ValidateBackup_present) simp
  then show "fst (RestoreAll H env b tp disk meta tgt ord) = Inr ()"
    by (simp add: RestoreAll_def)
  from a have d: "distinct ord" and pin: "p \<in> set ord"
    by (auto simp: range_order_def)
  from a have a3: "md_Files meta p = Some fi" and a4: "\<not> fi_IsDeleted fi"
    and a5: "\<forall>q \<in> set ord. q \<noteq> p \<longrightarrow>
        map_option fi_Path (md_Files meta q) \<noteq> Some (fi_Path fi)"
    by blast+
  have "foldl (restore_one H env b tp disk meta) tgt ord (Join tp (fi_Path fi)) =
      snd (restoreFile H env b tp disk tgt fi (chunk_map (md_Chunks meta))) (Join tp (fi_Path fi))"
    using d pin a3 a4 a5 by (rule restore_fold_file)
  then show "snd (RestoreAll H env b tp disk meta tgt ord) (Join tp (fi_Path fi)) =
        snd (restoreFile H env b tp disk tgt fi (chunk_map (md_Chunks meta)))
          (Join tp (fi_Path fi))"
    using v by (simp add: RestoreAll_def)
qed

lemma two_chunk_map:
  "chunk_map (md_Chunks two_chunk_catalog) =
     [1 \<mapsto> \<lparr>ci_ID = 1, ci_Filename = ''chunk_000001.gz'', ci_Size = 1,
                   ci_Hash = toy_hash [1], ci_CompressedSize = 1\<rparr>,
      2 \<mapsto> \<lparr>ci_ID = 2, ci_Filename = ''chunk_000002.gz'', ci_Size = 1,
                   ci_Hash = toy_hash [2], ci_CompressedSize = 1\<rparr>]"
  by (simp add: chunk_map_def two_chunk_catalog_def)

lemma dir_of_target: "DirName ''r/a.txt'' = ''r''" "DirName ''r/b.txt'' = ''r''"
  by (simp_all add: DirName_def)

lemma ensure_r: "EnsureDirectoryExists ok_env ''r'' = Inr ()"
  by (simp add: EnsureDirectoryExists_def ValidatePath_def Abs_def ok_env_def)

lemma restore_a_corrupt:
  "restoreFile toy_hash ok_env ''b'' ''r'' dir_corrupt1 no_target (info_a\<lparr>fi_ChunkRefs := [1]\<rparr>)
      (chunk_map (md_Chunks two_chunk_catalog)) = (Inl (ErrChunkHash 1), no_target)"
  by (simp add: restoreFile_def two_chunk_map info_a_def Join_def dir_of_target ensure_r)
     (simp add: dir_corrupt1_def ok_env_def CalculateDataHash_def toy_hash_simps)

lemma restore_b_corrupt:
  "restoreFile toy_hash ok_env ''b'' ''r'' dir_corrupt1 no_target (info_b\<lparr>fi_ChunkRefs := [2]\<rparr>)
      (chunk_map (md_Chunks two_chunk_catalog)) = (Inr (), no_target(''r/b.txt'' \<mapsto> ([2], 6)))"
  by (simp add: restoreFile_def two_chunk_map info_b_def Join_def dir_of_target ensure_r)
     (simp add: dir_corrupt1_def ok_env_def CalculateDataHash_def toy_hash_simps)

text \<open>
  The instance of C3 on a catalog of two chunks: with the file of chunk 1 missing, and
  with the file of chunk 1 corrupt, where \<open>a.txt\<close> fails and \<open>b.txt\<close> is restored.
\<close>

theorem restore_all_contract_witness:
  "RestoreAll toy_hash ok_env ''b'' ''r'' dir_missing1 two_chunk_catalog no_target
      [''a.txt'', ''b.txt''] = (Inl (ErrChunkMissing ''chunk_000001.gz''), no_target) \<and>
   fst (RestoreAll toy_hash ok_env ''b'' ''r'' dir_corrupt1 two_chunk_catalog no_target
      [''a.txt'', ''b.txt'']) = Inr () \<and>
   snd (RestoreAll toy_hash ok_env ''b'' ''r'' dir_corrupt1 two_chunk_catalog no_target
      [''a.txt'', ''b.txt'']) ''r/a.txt'' = None \<and>
   snd (RestoreAll toy_hash ok_env ''b'' ''r'' dir_corrupt1 two_chunk_catalog no_target
      [''a.txt'', ''b.txt'']) ''r/b.txt'' = Some ([2], 6)"
proof -
  let ?ord = "[''a.txt'', ''b.txt'']"
  let ?fa = "info_a\<lparr>fi_ChunkRefs := [1]\<rparr>"
  let ?fb = "info_b\<lparr>fi_ChunkRefs := [2]\<rparr>"
  have ro: "range_order (md_Files two_chunk_catalog) ?ord"
    by (auto simp: range_order_def two_chunk_catalog_def)
  have miss: "\<exists>c \<in> set (md_Chunks two_chunk_catalog).
      bd_files dir_missing1 (Join ''b'' (ci_Filename c)) = None"
    by (simp add: two_chunk_catalog_def dir_missing1_def Join_def)
  have v: "ValidateBackup ''b'' dir_missing1 (md_Chunks two_chunk_catalog) =
      Inl (ErrChunkMissing ''chunk_000001.gz'')"
    by (simp add: two_chunk_catalog_def dir_missing1_def Join_def)
  from restore_all_contract[of two_chunk_catalog dir_missing1 "''b''" toy_hash ok_env "''r''"
      no_target ?ord "''a.txt''" ?fa] miss v
  have r1: "RestoreAll toy_hash ok_env ''b'' ''r'' dir_missing1 two_chunk_catalog no_target ?ord =
      (Inl (ErrChunkMissing ''chunk_000001.gz''), no_target)"
    by simp
  have pres: "\<forall>c \<in> set (md_Chunks two_chunk_catalog).
      bd_files dir_corrupt1 (Join ''b'' (ci_Filename c)) \<noteq> None"
    by (simp add: two_chunk_catalog_def dir_corrupt1_def Join_def)
  have ha: "md_Files two_chunk_catalog ''a.txt'' = Some ?fa \<and> \<not> fi_IsDeleted ?fa \<and>
      (\<forall>q \<in> set ?ord. q \<noteq> ''a.txt'' \<longrightarrow>
          map_option fi_Path (md_Files two_chunk_catalog q) \<noteq> Some (fi_Path ?fa))"
    by (simp add: two_chunk_catalog_def info_a_def info_b_def)
  have hb: "md_Files two_chunk_catalog ''b.txt'' = Some ?fb \<and> \<not> fi_IsDeleted ?fb \<and>
      (\<forall>q \<in> set ?ord. q \<noteq> ''b.txt'' \<longrightarrow>
          map_option fi_Path (md_Files two_chunk_catalog q) \<noteq> Some (fi_Path ?fb))"
    by (simp add: two_chunk_catalog_def info_a_def info_b_def)
  have pa: "Join ''r'' (fi_Path ?fa) = ''r/a.txt''" and pb: "Join ''r'' (fi_Path ?fb) = ''r/b.txt''"
    by (simp_all add: Join_def info_a_def info_b_def)
  from restore_all_contract[of two_chunk_catalog dir_corrupt1 "''b''" toy_hash ok_env "''r''"
      no_target ?ord "''a.txt''" ?fa] pres ro ha
  have "fst (RestoreAll toy_hash ok_env ''b'' ''r'' dir_corrupt1 two_chunk_catalog no_target ?ord)
        = Inr () \<and>
      snd (RestoreAll toy_hash ok_env ''b'' ''r'' dir_corrupt1 two_chunk_catalog no_target ?ord)
        (Join ''r'' (fi_Path ?fa)) =
      snd (restoreFile toy_hash ok_env ''b'' ''r'' dir_corrupt1 no_target ?fa
             (chunk_map (md_Chunks two_chunk_catalog))) (Join ''r'' (fi_Path ?fa))"
    by blast
  then have r2: "fst (RestoreAll toy_hash ok_env ''b'' ''r'' dir_corrupt1 two_chunk_catalog no_target ?ord)
        = Inr () \<and>
      snd (RestoreAll toy_hash ok_env ''b'' ''r'' dir_corrupt1 two_chunk_catalog no_target ?ord)
        ''r/a.txt'' = None"
    unfolding pa restore_a_corrupt by (simp add: no_target_def)
  from restore_all_contract[of two_chunk_catalog dir_corrupt1 "''b''" toy_hash ok_env "''r''"
      no_target ?ord "''b.txt''" ?fb] pres ro hb
  have "snd (RestoreAll toy_hash ok_env ''b'' ''r'' dir_corrupt1 two_chunk_catalog no_target ?ord)
        (Join ''r'' (fi_Path ?fb)) =
      snd (restoreFile toy_hash ok_env ''b'' ''r'' dir_corrupt1 no_target ?fb
             (chunk_map (md_Chunks two_chunk_catalog))) (Join ''r'' (fi_Path ?fb))"
    by blast
  then have r3: "snd (RestoreAll toy_hash ok_env ''b'' ''r'' dir_corrupt1 two_chunk_catalog no_target ?ord)
        ''r/b.txt'' = Some ([2], 6)"
    unfolding pb restore_b_corrupt by simp
  from r1 r2 r3 show ?thesis by simp
qed

text \<open>
  Claim C3 as stated fails: the file of chunk 1 is missing, \<open>b.txt\<close> is live and needs
  chunk 2 only, and \<open>RestoreAll\<close> returns the validation error without restoring it.
\<close>

theorem restore_aborts_counterexample:
  "bd_files dir_missing1 ''b/chunk_000001.gz'' = None \<and>
   bd_files dir_missing1 ''b/chunk_000002.gz'' = Some [2] \<and>
   map_option fi_ChunkRefs (md_Files two_chunk_catalog ''b.txt'') = Some [2] \<and>
   map_option fi_IsDeleted (md_Files two_chunk_catalog ''b.txt'') = Some False \<and>
   fst (RestoreAll toy_hash ok_env ''b'' ''r'' dir_missing1 two_chunk_catalog no_target
      [''a.txt'', ''b.txt'']) = Inl (ErrChunkMissing ''chunk_000001.gz'') \<and>
   snd (RestoreAll toy_hash ok_env ''b'' ''r'' dir_missing1 two_chunk_catalog no_target
      [''a.txt'', ''b.txt'']) ''r/b.txt'' = None"
  by (simp add: RestoreAll_def two_chunk_catalog_def dir_missing1_def Join_def no_target_def
      info_b_def)

lemma fresh_detect:
  "DetectChanges toy_hash ''w'' small_tree (NewManager 0) [''a.txt'', ''b.txt''] [] = two_creates"
  by (simp add: DetectChanges_def cur_small new_or_modified_def NewManager_def two_creates_def)

lemma fresh_backup:
  "PerformFullBackup toy_hash small_tree ok_env [''a.txt'', ''b.txt''] [] (NewEngine 0 ''w'' ''b'')
      empty_dir =
     (Inr (),
      \<lparr>e_watchPath = ''w'', e_backupPath = ''b'', e_metadata = backed_up_catalog, e_chunkID = 2\<rparr>,
      backed_up_dir)"
proof -
  have n1: "chunk_filename 1 = ''chunk_000001.gz''" by code_simp
  have cl: "foldl (classify ''w'') ([], NewManager 0) two_creates =
      ([''w/a.txt'', ''w/b.txt''],
       (NewManager 0)\<lparr>md_Files := (md_Files (NewManager 0))(''a.txt'' \<mapsto> info_a, ''b.txt'' \<mapsto> info_b)\<rparr>)"
    by (simp add: two_creates_def classify_def Join_def UpdateFileInfo_def)
  have sv: "SaveMetadata ok_env ''b'' m d =
      (Inr (), m\<lparr>md_UpdatedAt := 100\<rparr>,
       d\<lparr>bd_tmp := Absent, bd_catalog := Stored (m\<lparr>md_UpdatedAt := 100\<rparr>)\<rparr>)" for m d
    by (simp add: SaveMetadata_def EnsureDirectoryExists_def ValidatePath_def Abs_def ok_env_def
        Let_def)
  have st: "store_chunks ok_env ''w'' ''b'' (m, d)
      [\<lparr>cd_ID = 1, cd_Data = [1, 2],
        cd_Files = [\<lparr>cf_Path = ''w/a.txt'', cf_Offset = 0, cf_Size = 1, cf_Hash = toy_hash [1]\<rparr>,
                    \<lparr>cf_Path = ''w/b.txt'', cf_Offset = 1, cf_Size = 1, cf_Hash = toy_hash [2]\<rparr>],
        cd_Hash = toy_hash [1, 2]\<rparr>] =
      (Inr (),
       add_chunk_ref ''w'' 1 (add_chunk_ref ''w'' 1
          (AddChunk m \<lparr>ci_ID = 1, ci_Filename = ''chunk_000001.gz'', ci_Size = 2,
              ci_Hash = toy_hash [1, 2], ci_CompressedSize = 2\<rparr>)
          \<lparr>cf_Path = ''w/a.txt'', cf_Offset = 0, cf_Size = 1, cf_Hash = toy_hash [1]\<rparr>)
          \<lparr>cf_Path = ''w/b.txt'', cf_Offset = 1, cf_Size = 1, cf_Hash = toy_hash [2]\<rparr>,
       d\<lparr>bd_files := (bd_files d)(''b/chunk_000001.gz'' \<mapsto> [1, 2])\<rparr>)" for m d
    by (simp add: store_chunk_def n1 ok_env_def Join_def Let_def)
  show ?thesis
    by (simp add: PerformFullBackup_def NewEngine_def fresh_detect handleChanges_def cl
        createBackupChunks_def NewChunker_def small_chunks st sv del: store_chunks.simps)
       (simp add: add_chunk_ref_def Rel_def GetFileInfo_def UpdateFileInfo_def AddChunk_def
        NewManager_def empty_dir_def backed_up_dir_def backed_up_catalog_def info_a_def info_b_def
        Let_def)
qed

lemma backed_up_map:
  "chunk_map (md_Chunks backed_up_catalog) =
     [1 \<mapsto> \<lparr>ci_ID = 1, ci_Filename = ''chunk_000001.gz'', ci_Size = 2,
                   ci_Hash = toy_hash [1, 2], ci_CompressedSize = 2\<rparr>]"
  by (simp add: chunk_map_def backed_up_catalog_def)

lemma restore_backed_up:
  "restoreFile toy_hash ok_env ''b'' ''r'' backed_up_dir tgt (info_a\<lparr>fi_ChunkRefs := [1]\<rparr>)
      (chunk_map (md_Chunks backed_up_catalog)) = (Inr (), tgt(''r/a.txt'' \<mapsto> ([1, 2], 5)))"
  "restoreFile toy_hash ok_env ''b'' ''r'' backed_up_dir tgt (info_b\<lparr>fi_ChunkRefs := [1]\<rparr>)
      (chunk_map (md_Chunks backed_up_catalog)) = (Inr (), tgt(''r/b.txt'' \<mapsto> ([1, 2], 6)))"
  by (simp add: restoreFile_def backed_up_map info_a_def info_b_def Join_def dir_of_target ensure_r,
      simp add: backed_up_dir_def ok_env_def CalculateDataHash_def)+

text \<open>
  Claim C1 on the code: a tree of two one-byte files is backed up into one chunk, the
  catalog is loaded from the backup directory and restored. The restored \<open>a.txt\<close> has
  its recorded modification time and the bytes of the whole chunk, not its own.
\<close>

theorem restore_returns_whole_chunk:
  "PerformFullBackup toy_hash small_tree ok_env [''a.txt'', ''b.txt''] [] (NewEngine 0 ''w'' ''b'')
      empty_dir =
     (Inr (),
      \<lparr>e_watchPath = ''w'', e_backupPath = ''b'', e_metadata = backed_up_catalog, e_chunkID = 2\<rparr>,
      backed_up_dir) \<and>
   LoadMetadata (NewManager 7) backed_up_dir = Inr backed_up_catalog \<and>
   ReadFile small_tree ''w/a.txt'' = Some [1] \<and>
   map_option fi_ModTime (md_Files backed_up_catalog ''a.txt'') = Some 5 \<and>
   fst (RestoreAll toy_hash ok_env ''b'' ''r'' backed_up_dir backed_up_catalog no_target
          [''a.txt'', ''b.txt'']) = Inr () \<and>
   snd (RestoreAll toy_hash ok_env ''b'' ''r'' backed_up_dir backed_up_catalog no_target
          [''a.txt'', ''b.txt'']) ''r/a.txt'' = Some ([1, 2], 5)"
proof -
  have ld: "LoadMetadata (NewManager 7) backed_up_dir = Inr backed_up_catalog"
    by (simp add: LoadMetadata_def backed_up_dir_def)
  have rd: "ReadFile small_tree ''w/a.txt'' = Some [1]"
    by (simp add: ReadFile_def small_tree_def)
  have mt: "map_option fi_ModTime (md_Files backed_up_catalog ''a.txt'') = Some 5"
    by (simp add: backed_up_catalog_def info_a_def)
  have v: "ValidateBackup ''b'' backed_up_dir (md_Chunks backed_up_catalog) = Inr ()"
    by (simp add: backed_up_catalog_def backed_up_dir_def Join_def)
  have fa: "md_Files backed_up_catalog ''a.txt'' = Some (info_a\<lparr>fi_ChunkRefs := [1]\<rparr>)"
    and fb: "md_Files backed_up_catalog ''b.txt'' = Some (info_b\<lparr>fi_ChunkRefs := [1]\<rparr>)"
    by (simp_all add: backed_up_catalog_def)
  have ra: "RestoreAll toy_hash ok_env ''b'' ''r'' backed_up_dir backed_up_catalog no_target
          [''a.txt'', ''b.txt''] =
      (Inr (), no_target(''r/a.txt'' \<mapsto> ([1, 2], 5), ''r/b.txt'' \<mapsto> ([1, 2], 6)))"
    by (simp add: RestoreAll_def v restore_one_def fa fb restore_backed_up)
       (simp add: info_a_def info_b_def)
  show ?thesis
    using fresh_backup ld rd mt by (simp add: ra)
qed

subsection \<open>Debounce\<close>

lemma consistent_NewWatcher: "consistent NewWatcher"
  by (simp add: consistent_def NewWatcher_def)

lemma consistent_processEvent:
  assumes "consistent w"
  shows "consistent (processEvent w now ev)"
proof (cases "w_debouncer w (ev_Name ev)")
  case None
  with assms show ?thesis
    by (auto simp: consistent_def processEvent_def debouncedSend_def Let_def less_Suc_eq)
next
  case (Some j)
  with assms show ?thesis
    by (auto simp: consistent_def processEvent_def debouncedSend_def Stop_def Let_def less_Suc_eq)
qed

lemma consistent_fire:
  assumes "consistent w"
  shows "consistent (fire w now tm)"
proof -
  have sub: "set (remove1 tm (w_armed w)) \<subseteq> set (w_armed w)" by (rule set_remove1_subset)
  have nm: "tm \<in> set (w_armed w) \<Longrightarrow> ev_Name (tm_event tm) = tm_path tm"
    using assms by (simp add: consistent_def)
  show ?thesis
    using assms sub nm
    by (cases "operation_of (tm_event tm)") (auto simp: consistent_def fire_def)
qed

lemma consistent_receive:
  assumes "consistent w"
  shows "consistent (receive w cb)"
proof -
  have sub: "set (remove1 cb (w_sending w)) \<subseteq> set (w_sending w)" by (rule set_remove1_subset)
  show ?thesis
    using assms sub by (auto simp: consistent_def receive_def)
qed

lemma consistent_finish:
  assumes "consistent w"
  shows "consistent (finish w q)"
  using assms by (auto simp: consistent_def finish_def)

lemma consistent_step: "consistent w \<Longrightarrow> consistent (step w a)"
proof -
  assume w: "consistent w"
  obtain now act where a: "a = (now, act)" by (cases a)
  show ?thesis
    unfolding a using w
    by (cases act) (simp_all add: consistent_processEvent consistent_fire consistent_receive consistent_finish)
qed

lemma consistent_run: "consistent w \<Longrightarrow> consistent (run w sch)"
  unfolding run_def by (induction sch arbitrary: w) (simp_all add: consistent_step)

lemma consistent_reached: "consistent (run NewWatcher hist)"
  by (rule consistent_run) (rule consistent_NewWatcher)

lemma filter_remove1_other: "\<not> P x \<Longrightarrow> filter P (remove1 x xs) = filter P xs"
  by (induction xs) auto

lemma calm_transfer:
  assumes "calm p n w" "armed_for p w' = armed_for p w" "sending_for p w' = sending_for p w"
    "returning_for p w' = returning_for p w" "w_debouncer w' p = w_debouncer w p"
  shows "calm p n w'"
  using assms by (cases n) (auto simp: calm_def)

lemma calm_notify_same:
  assumes "calm p n w" "ev_Name ev = p"
  shows "calm p (Some (now, ev)) (processEvent w now ev) \<and>
         sent_for p (processEvent w now ev) = sent_for p w"
proof (cases n)
  case None
  with assms show ?thesis
    by (cases "w_debouncer w p")
       (auto simp: calm_def processEvent_def debouncedSend_def Stop_def Let_def armed_for_def
          sending_for_def returning_for_def sent_for_def filter_empty_conv)
next
  case (Some m)
  with assms obtain i where
    i: "armed_for p w = [\<lparr>tm_id = i, tm_path = p, tm_deadline = fst m + 500, tm_event = snd m\<rparr>]"
       "w_debouncer w p = Some i" "sending_for p w = []" "returning_for p w = []"
    by (auto simp: calm_def)
  have "filter (\<lambda>tm. tm_path tm = p) (filter (\<lambda>tm. tm_id tm \<noteq> i) (w_armed w)) =
        filter (\<lambda>tm. tm_id tm \<noteq> i) (armed_for p w)"
    by (simp add: armed_for_def conj_commute)
  also have "\<dots> = []" by (simp add: i(1))
  finally have gone: "filter (\<lambda>tm. tm_path tm = p) (filter (\<lambda>tm. tm_id tm \<noteq> i) (w_armed w)) = []" .
  show ?thesis
    using assms(2) i gone
    by (simp add: calm_def processEvent_def debouncedSend_def Stop_def Let_def armed_for_def
          sending_for_def returning_for_def sent_for_def)
qed

lemma calm_notify_other:
  assumes "consistent w" "calm p n w" "ev_Name ev \<noteq> p"
  shows "calm p n (processEvent w now ev) \<and>
         sent_for p (processEvent w now ev) = sent_for p w"
proof (cases "w_debouncer w (ev_Name ev)")
  case None
  with assms(2,3) show ?thesis
    by (cases n)
       (auto simp: calm_def processEvent_def debouncedSend_def Let_def armed_for_def
          sending_for_def returning_for_def sent_for_def)
next
  case (Some j)
  have keep: "tm \<in> set (armed_for p w) \<Longrightarrow> tm_id tm \<noteq> j" for tm
    using assms(1,3) Some by (auto simp: consistent_def armed_for_def)
  have "filter (\<lambda>tm. tm_path tm = p) (filter (\<lambda>tm. tm_id tm \<noteq> j) (w_armed w)) =
        filter (\<lambda>tm. tm_id tm \<noteq> j) (armed_for p w)"
    by (simp add: armed_for_def conj_commute)
  also have "\<dots> = armed_for p w"
    using keep by (simp add: filter_id_conv)
  finally have same: "filter (\<lambda>tm. tm_path tm = p) (filter (\<lambda>tm. tm_id tm \<noteq> j) (w_armed w)) =
        armed_for p w" .
  have a: "armed_for p (processEvent w now ev) = armed_for p w"
    using Some assms(3) same
    by (simp add: processEvent_def debouncedSend_def Stop_def Let_def armed_for_def)
  have rest: "sending_for p (processEvent w now ev) = sending_for p w"
    "returning_for p (processEvent w now ev) = returning_for p w"
    "sent_for p (processEvent w now ev) = sent_for p w"
    "w_debouncer (processEvent w now ev) p = w_debouncer w p"
    using Some assms(3)
    by (simp_all add: processEvent_def debouncedSend_def Stop_def Let_def sending_for_def
          returning_for_def sent_for_def)
  show ?thesis
    using calm_transfer[OF assms(2) a rest(1,2,4)] rest(3) by simp
qed

lemma calm_fire:
  assumes "calm p n w" "case n of None \<Rightarrow> True | Some m \<Rightarrow> now < fst m + 500"
  shows "calm p n (fire w now tm) \<and> sent_for p (fire w now tm) = sent_for p w"
proof (cases "tm \<in> set (w_armed w) \<and> tm_deadline tm \<le> now")
  case False
  with assms(1) show ?thesis by (auto simp: fire_def)
next
  case True
  have other: "tm_path tm \<noteq> p"
  proof
    assume "tm_path tm = p"
    with True have "tm \<in> set (armed_for p w)" by (simp add: armed_for_def)
    with assms True show False by (cases n) (auto simp: calm_def)
  qed
  then have a: "filter (\<lambda>x. tm_path x = p) (remove1 tm (w_armed w)) = armed_for p w"
    by (simp add: filter_remove1_other armed_for_def)
  have "armed_for p (fire w now tm) = armed_for p w \<and>
        sending_for p (fire w now tm) = sending_for p w \<and>
        returning_for p (fire w now tm) = returning_for p w \<and>
        sent_for p (fire w now tm) = sent_for p w \<and>
        w_debouncer (fire w now tm) p = w_debouncer w p"
    using True other a
    by (cases "operation_of (tm_event tm)")
       (simp_all add: fire_def armed_for_def sending_for_def returning_for_def sent_for_def)
  with calm_transfer[OF assms(1), of "fire w now tm"] show ?thesis by simp
qed

lemma calm_receive:
  assumes "consistent w" "calm p n w"
  shows "calm p n (receive w cb) \<and> sent_for p (receive w cb) = sent_for p w"
proof (cases "cb \<in> set (w_sending w)")
  case False
  with assms(2) show ?thesis by (simp add: receive_def)
next
  case True
  have "sending_for p w = []" using assms(2) by (simp add: calm_def)
  with True have other: "fst cb \<noteq> p"
    by (auto simp: sending_for_def filter_empty_conv)
  moreover have "fe_Path (snd cb) = fst cb"
    using assms(1) True by (simp add: consistent_def)
  ultimately have "armed_for p (receive w cb) = armed_for p w \<and>
        sending_for p (receive w cb) = sending_for p w \<and>
        returning_for p (receive w cb) = returning_for p w \<and>
        sent_for p (receive w cb) = sent_for p w \<and>
        w_debouncer (receive w cb) p = w_debouncer w p"
    using True
    by (simp add: receive_def armed_for_def sending_for_def returning_for_def sent_for_def
        filter_remove1_other)
  with calm_transfer[OF assms(2), of "receive w cb"] show ?thesis by simp
qed

lemma calm_finish:
  assumes "calm p n w"
  shows "calm p n (finish w q) \<and> sent_for p (finish w q) = sent_for p w"
proof (cases "q \<in> set (w_returning w)")
  case False
  with assms show ?thesis by (simp add: finish_def)
next
  case True
  have "returning_for p w = []" using assms by (simp add: calm_def)
  with True have other: "q \<noteq> p"
    by (auto simp: returning_for_def filter_empty_conv)
  then have "armed_for p (finish w q) = armed_for p w \<and>
        sending_for p (finish w q) = sending_for p w \<and>
        returning_for p (finish w q) = returning_for p w \<and>
        sent_for p (finish w q) = sent_for p w \<and>
        w_debouncer (finish w q) p = w_debouncer w p"
    using True
    by (simp add: finish_def armed_for_def sending_for_def returning_for_def sent_for_def
        filter_remove1_other)
  with calm_transfer[OF assms, of "finish w q"] show ?thesis by simp
qed

lemma run_Cons: "run w (x # sch) = run (step w x) sch"
  by (simp add: run_def)

lemma run_Nil: "run w [] = w"
  by (simp add: run_def)

lemma run_append: "run w (xs @ ys) = run (run w xs) ys"
  by (simp add: run_def)

lemma burst_calm:
  assumes "consistent w" "calm p n w" "burst p (map_option (\<lambda>m. fst m + 500) n) sch"
  shows "calm p (case last_note p sch of None \<Rightarrow> n | Some m \<Rightarrow> Some m) (run w sch) \<and>
         sent_for p (run w sch) = sent_for p w"
  using assms
proof (induction sch arbitrary: w n)
  case Nil
  then show ?case by (simp add: run_def)
next
  case (Cons x sch)
  obtain now a where x: "x = (now, a)" by (cases x)
  have early: "case n of None \<Rightarrow> True | Some m \<Rightarrow> now < fst m + 500"
    using Cons.prems(3) unfolding x by (cases a; cases n) simp_all
  have consistent': "consistent (step w x)" using Cons.prems(1) by (rule consistent_step)
  show ?case
  proof (cases a)
    case (Notify ev)
    show ?thesis
    proof (cases "ev_Name ev = p")
      case True
      have c: "calm p (Some (now, ev)) (step w x)" "sent_for p (step w x) = sent_for p w"
        using calm_notify_same[OF Cons.prems(2) True, of now] by (simp_all add: x Notify)
      have b: "burst p (map_option (\<lambda>m. fst m + 500) (Some (now, ev))) sch"
        using Cons.prems(3) True by (simp add: x Notify)
      from Cons.IH[OF consistent' c(1) b] c(2) True show ?thesis
        by (cases "last_note p sch") (simp_all add: run_Cons x Notify)
    next
      case False
      have c: "calm p n (step w x)" "sent_for p (step w x) = sent_for p w"
        using calm_notify_other[OF Cons.prems(1,2) False, of now] by (simp_all add: x Notify)
      have b: "burst p (map_option (\<lambda>m. fst m + 500) n) sch"
        using Cons.prems(3) False by (simp add: x Notify)
      from Cons.IH[OF consistent' c(1) b] c(2) False show ?thesis
        by (cases "last_note p sch") (simp_all add: run_Cons x Notify)
    qed
  next
    case (Fire tm)
    have c: "calm p n (step w x)" "sent_for p (step w x) = sent_for p w"
      using calm_fire[OF Cons.prems(2) early, of tm] by (simp_all add: x Fire)
    have b: "burst p (map_option (\<lambda>m. fst m + 500) n) sch"
      using Cons.prems(3) by (simp add: x Fire)
    from Cons.IH[OF consistent' c(1) b] c(2) show ?thesis
      by (simp add: run_Cons x Fire)
  next
    case (Receive cb)
    have c: "calm p n (step w x)" "sent_for p (step w x) = sent_for p w"
      using calm_receive[OF Cons.prems(1,2), of cb] by (simp_all add: x Receive)
    have b: "burst p (map_option (\<lambda>m. fst m + 500) n) sch"
      using Cons.prems(3) by (simp add: x Receive)
    from Cons.IH[OF consistent' c(1) b] c(2) show ?thesis
      by (simp add: run_Cons x Receive)
  next
    case (Return q)
    have c: "calm p n (step w x)" "sent_for p (step w x) = sent_for p w"
      using calm_finish[OF Cons.prems(2), of q] by (simp_all add: x Return)
    have b: "burst p (map_option (\<lambda>m. fst m + 500) n) sch"
      using Cons.prems(3) by (simp add: x Return)
    from Cons.IH[OF consistent' c(1) b] c(2) show ?thesis
      by (simp add: run_Cons x Return)
  qed
qed

lemma last_note_name: "last_note p sch = Some m \<Longrightarrow> ev_Name (snd m) = p"
proof (induction sch)
  case Nil
  then show ?case by simp
next
  case (Cons x sch)
  obtain now a where x: "x = (now, a)" by (cases x)
  from Cons show ?case
    unfolding x by (cases a) (auto split: option.splits if_splits)
qed

lemma idle_calm: "idle p w \<longleftrightarrow> calm p None w"
  by (auto simp: idle_def calm_def)

lemma calm_pending:
  "calm p (Some m) w \<longleftrightarrow>
     (\<exists>tm. pending p tm w \<and> tm_path tm = p \<and> tm_deadline tm = fst m + 500 \<and> tm_event tm = snd m)"
proof
  assume "calm p (Some m) w"
  then obtain i where i:
      "armed_for p w = [\<lparr>tm_id = i, tm_path = p, tm_deadline = fst m + 500, tm_event = snd m\<rparr>]"
      "w_debouncer w p = Some i" "sending_for p w = []" "returning_for p w = []"
    by (auto simp: calm_def)
  then have "pending p \<lparr>tm_id = i, tm_path = p, tm_deadline = fst m + 500, tm_event = snd m\<rparr> w"
    by (simp add: pending_def)
  then show "\<exists>tm. pending p tm w \<and> tm_path tm = p \<and> tm_deadline tm = fst m + 500 \<and>
      tm_event tm = snd m"
    by (intro exI[where x = "\<lparr>tm_id = i, tm_path = p, tm_deadline = fst m + 500, tm_event = snd m\<rparr>"])
       simp
next
  assume "\<exists>tm. pending p tm w \<and> tm_path tm = p \<and> tm_deadline tm = fst m + 500 \<and>
      tm_event tm = snd m"
  then obtain tm where tm: "pending p tm w" "tm_path tm = p" "tm_deadline tm = fst m + 500"
    "tm_event tm = snd m" by blast
  have "tm = \<lparr>tm_id = tm_id tm, tm_path = p, tm_deadline = fst m + 500, tm_event = snd m\<rparr>"
    using tm(2,3,4) by (cases tm) simp
  then show "calm p (Some m) w"
    using tm(1) by (auto simp: calm_def pending_def)
qed

lemma burst_contract:
  assumes "idle p (run NewWatcher hist)" "burst p None sch" "last_note p sch = Some (t, ev)"
  shows "(\<exists>tm. pending p tm (run NewWatcher (hist @ sch)) \<and> tm_deadline tm = t + 500 \<and>
              tm_event tm = ev) \<and>
         sent_for p (run NewWatcher (hist @ sch)) = sent_for p (run NewWatcher hist)"
proof -
  have c: "calm p None (run NewWatcher hist)" using assms(1) by (simp add: idle_calm)
  have b: "burst p (map_option (\<lambda>m. fst m + 500) None) sch" using assms(2) by simp
  from burst_calm[OF consistent_reached c b] assms(3)
  have "calm p (Some (t, ev)) (run NewWatcher (hist @ sch))"
    "sent_for p (run NewWatcher (hist @ sch)) = sent_for p (run NewWatcher hist)"
    by (simp_all add: run_append)
  then show ?thesis
    by (auto simp: calm_pending)
qed

lemma pending_named:
  assumes "consistent w" "pending p tm w"
  shows "tm \<in> set (w_armed w)" "tm_path tm = p" "ev_Name (tm_event tm) = p"
proof -
  have "tm \<in> set (armed_for p w)" using assms(2) by (simp add: pending_def)
  then show a: "tm \<in> set (w_armed w)" and b: "tm_path tm = p" by (simp_all add: armed_for_def)
  from a b assms(1) show "ev_Name (tm_event tm) = p" by (simp add: consistent_def)
qed

lemma filter_remove1_only: "filter P xs = [x] \<Longrightarrow> filter P (remove1 x xs) = []"
  by (simp add: filter_remove1)

lemma fire_pending:
  assumes "consistent w" "pending p tm w" "tm_deadline tm \<le> now" "operation_of (tm_event tm) = Some op"
  shows "armed_for p (fire w now tm) = []"
    "sending_for p (fire w now tm) = [(p, \<lparr>fe_Path = p, fe_Operation = op, fe_Timestamp = now\<rparr>)]"
    "returning_for p (fire w now tm) = []"
    "w_changeChan (fire w now tm) = w_changeChan w"
    "(p, \<lparr>fe_Path = p, fe_Operation = op, fe_Timestamp = now\<rparr>) \<in> set (w_sending (fire w now tm))"
proof -
  note nm = pending_named[OF assms(1,2)]
  have a: "filter (\<lambda>x. tm_path x = p) (remove1 tm (w_armed w)) = []"
    using assms(2) by (intro filter_remove1_only) (simp add: pending_def armed_for_def)
  have s: "sending_for p w = []" "returning_for p w = []"
    using assms(2) by (simp_all add: pending_def)
  show "armed_for p (fire w now tm) = []"
    using nm assms(3,4) a by (simp add: fire_def armed_for_def)
  show "sending_for p (fire w now tm) =
      [(p, \<lparr>fe_Path = p, fe_Operation = op, fe_Timestamp = now\<rparr>)]"
    using nm assms(3,4) s by (simp add: fire_def sending_for_def)
  show "returning_for p (fire w now tm) = []"
    using nm assms(3,4) s by (simp add: fire_def returning_for_def)
  show "w_changeChan (fire w now tm) = w_changeChan w"
    by (simp add: fire_def split: option.splits)
  show "(p, \<lparr>fe_Path = p, fe_Operation = op, fe_Timestamp = now\<rparr>) \<in> set (w_sending (fire w now tm))"
    using nm assms(3,4) by (simp add: fire_def)
qed

lemma after_fire_notify:
  assumes "after_fire p msg old w" "ev_Name ev \<noteq> p"
  shows "after_fire p msg old (processEvent w now ev)"
proof -
  have a: "armed_for p w = []" using assms(1) by (simp add: after_fire_def)
  have "filter (\<lambda>tm. tm_path tm = p) (filter (\<lambda>tm. tm_id tm \<noteq> j) (w_armed w)) =
        filter (\<lambda>tm. tm_id tm \<noteq> j) (armed_for p w)" for j
    by (simp add: armed_for_def conj_commute)
  then have gone: "filter (\<lambda>tm. tm_path tm = p) (filter (\<lambda>tm. tm_id tm \<noteq> j) (w_armed w)) = []" for j
    by (simp add: a)
  have "armed_for p (processEvent w now ev) = [] \<and>
        sending_for p (processEvent w now ev) = sending_for p w \<and>
        returning_for p (processEvent w now ev) = returning_for p w \<and>
        sent_for p (processEvent w now ev) = sent_for p w"
    using assms(2) a gone
    by (cases "w_debouncer w (ev_Name ev)")
       (simp_all add: processEvent_def debouncedSend_def Stop_def Let_def armed_for_def
          sending_for_def returning_for_def sent_for_def)
  with assms(1) show ?thesis by (simp add: after_fire_def)
qed

lemma after_fire_fire:
  assumes "after_fire p msg old w"
  shows "after_fire p msg old (fire w now tm)"
proof (cases "tm \<in> set (w_armed w) \<and> tm_deadline tm \<le> now")
  case False
  with assms show ?thesis by (auto simp: fire_def)
next
  case True
  have a: "armed_for p w = []" using assms by (simp add: after_fire_def)
  with True have other: "tm_path tm \<noteq> p"
    by (auto simp: armed_for_def filter_empty_conv)
  then have "armed_for p (fire w now tm) = armed_for p w \<and>
        sending_for p (fire w now tm) = sending_for p w \<and>
        returning_for p (fire w now tm) = returning_for p w \<and>
        sent_for p (fire w now tm) = sent_for p w"
    using True
    by (cases "operation_of (tm_event tm)")
       (simp_all add: fire_def armed_for_def sending_for_def returning_for_def sent_for_def
          filter_remove1_other)
  with assms show ?thesis by (simp add: after_fire_def)
qed

lemma after_fire_receive:
  assumes "consistent w" "after_fire p msg old w"
  shows "after_fire p msg old (receive w cb)"
proof (cases "cb \<in> set (w_sending w)")
  case False
  with assms(2) show ?thesis by (simp add: receive_def)
next
  case True
  have nm: "fe_Path (snd cb) = fst cb" using assms(1) True by (simp add: consistent_def)
  show ?thesis
  proof (cases "fst cb = p")
    case False
    then have "armed_for p (receive w cb) = armed_for p w \<and>
        sending_for p (receive w cb) = sending_for p w \<and>
        returning_for p (receive w cb) = returning_for p w \<and>
        sent_for p (receive w cb) = sent_for p w"
      using True nm
      by (simp add: receive_def armed_for_def sending_for_def returning_for_def sent_for_def
          filter_remove1_other)
    with assms(2) show ?thesis by (simp add: after_fire_def)
  next
    case p: True
    with True have "cb \<in> set (sending_for p w)" by (simp add: sending_for_def)
    with assms(2) have ph: "sending_for p w = [(p, msg)]" "returning_for p w = []"
        "sent_for p w = old" "cb = (p, msg)" "armed_for p w = []"
      by (auto simp: after_fire_def)
    have s: "filter (\<lambda>c. fst c = p) (remove1 cb (w_sending w)) = []"
      using ph(1,4) by (intro filter_remove1_only) (simp add: sending_for_def)
    have "armed_for p (receive w cb) = [] \<and> sending_for p (receive w cb) = [] \<and>
        returning_for p (receive w cb) = [p] \<and> sent_for p (receive w cb) = old @ [msg]"
      using True nm p ph s
      by (simp add: receive_def armed_for_def sending_for_def returning_for_def sent_for_def)
    then show ?thesis by (simp add: after_fire_def)
  qed
qed

lemma after_fire_finish:
  assumes "after_fire p msg old w"
  shows "after_fire p msg old (finish w q)"
proof (cases "q \<in> set (w_returning w)")
  case False
  with assms show ?thesis by (simp add: finish_def)
next
  case True
  show ?thesis
  proof (cases "q = p")
    case False
    then have "armed_for p (finish w q) = armed_for p w \<and>
        sending_for p (finish w q) = sending_for p w \<and>
        returning_for p (finish w q) = returning_for p w \<and>
        sent_for p (finish w q) = sent_for p w"
      using True
      by (simp add: finish_def armed_for_def sending_for_def returning_for_def sent_for_def
          filter_remove1_other)
    with assms show ?thesis by (simp add: after_fire_def)
  next
    case p: True
    with True have "p \<in> set (returning_for p w)" by (simp add: returning_for_def)
    with assms have ph: "sending_for p w = []" "returning_for p w = [p]"
        "sent_for p w = old @ [msg]" "armed_for p w = []"
      by (auto simp: after_fire_def)
    have r: "filter (\<lambda>x. x = p) (remove1 p (w_returning w)) = []"
      using ph(2) by (intro filter_remove1_only) (simp add: returning_for_def)
    have "armed_for p (finish w q) = [] \<and> sending_for p (finish w q) = [] \<and>
        returning_for p (finish w q) = [] \<and> sent_for p (finish w q) = old @ [msg]"
      using True p ph r
      by (simp add: finish_def armed_for_def sending_for_def returning_for_def sent_for_def)
    then show ?thesis by (simp add: after_fire_def)
  qed
qed

lemma after_fire_run:
  assumes "consistent w" "after_fire p msg old w" "silent p sch"
  shows "after_fire p msg old (run w sch)"
  using assms
proof (induction sch arbitrary: w)
  case Nil
  then show ?case by (simp add: run_def)
next
  case (Cons x sch)
  obtain now a where x: "x = (now, a)" by (cases x)
  have consistent': "consistent (step w x)" using Cons.prems(1) by (rule consistent_step)
  have s: "silent p sch" using Cons.prems(3) unfolding x by (cases a) simp_all
  have "after_fire p msg old (step w x)"
  proof (cases a)
    case (Notify ev)
    with Cons.prems(3) have "ev_Name ev \<noteq> p" by (simp add: x)
    from after_fire_notify[OF Cons.prems(2) this] show ?thesis by (simp add: x Notify)
  next
    case (Fire tm)
    from after_fire_fire[OF Cons.prems(2)] show ?thesis by (simp add: x Fire)
  next
    case (Receive cb)
    from after_fire_receive[OF Cons.prems(1,2)] show ?thesis by (simp add: x Receive)
  next
    case (Return q)
    from after_fire_finish[OF Cons.prems(2)] show ?thesis by (simp add: x Return)
  qed
  from Cons.IH[OF consistent' this s] show ?case by (simp add: run_Cons)
qed

lemma firing_contract:
  assumes "pending p tm (run NewWatcher hist)" "tm_deadline tm \<le> now"
    "operation_of (tm_event tm) = Some op" "silent p sch"
  shows "sent_for p (fire (run NewWatcher hist) now tm) = sent_for p (run NewWatcher hist)"
    "sending_for p (fire (run NewWatcher hist) now tm) =
       [(p, \<lparr>fe_Path = p, fe_Operation = op, fe_Timestamp = now\<rparr>)]"
    "sent_for p (receive (fire (run NewWatcher hist) now tm)
         (p, \<lparr>fe_Path = p, fe_Operation = op, fe_Timestamp = now\<rparr>)) =
       sent_for p (run NewWatcher hist) @ [\<lparr>fe_Path = p, fe_Operation = op, fe_Timestamp = now\<rparr>]"
    "idle p (finish (receive (fire (run NewWatcher hist) now tm)
         (p, \<lparr>fe_Path = p, fe_Operation = op, fe_Timestamp = now\<rparr>)) p)"
    "sent_for p (run (fire (run NewWatcher hist) now tm) sch) = sent_for p (run NewWatcher hist) \<or>
     sent_for p (run (fire (run NewWatcher hist) now tm) sch) =
       sent_for p (run NewWatcher hist) @ [\<lparr>fe_Path = p, fe_Operation = op, fe_Timestamp = now\<rparr>]"
proof -
  let ?w = "run NewWatcher hist"
  let ?msg = "\<lparr>fe_Path = p, fe_Operation = op, fe_Timestamp = now\<rparr>"
  let ?w1 = "fire ?w now tm"
  have cons0: "consistent ?w" by (rule consistent_reached)
  have cons1: "consistent ?w1" using cons0 by (rule consistent_fire)
  note f = fire_pending[OF cons0 assms(1,2,3)]
  show s1: "sent_for p ?w1 = sent_for p ?w" using f(4) by (simp add: sent_for_def)
  show "sending_for p ?w1 = [(p, ?msg)]" by (rule f(2))
  have af: "after_fire p ?msg (sent_for p ?w) ?w1"
    using f(1,2,3) s1 by (simp add: after_fire_def)
  have s3: "filter (\<lambda>c. fst c = p) (remove1 (p, ?msg) (w_sending ?w1)) = []"
    using f(2) by (intro filter_remove1_only) (simp add: sending_for_def)
  let ?w2 = "receive ?w1 (p, ?msg)"
  have w2: "armed_for p ?w2 = []" "sending_for p ?w2 = []" "returning_for p ?w2 = [p]"
    "sent_for p ?w2 = sent_for p ?w @ [?msg]"
    using f s3 s1
    by (simp_all add: receive_def armed_for_def sending_for_def returning_for_def sent_for_def)
  show "sent_for p ?w2 = sent_for p ?w @ [?msg]" by (rule w2(4))
  have r: "filter (\<lambda>x. x = p) (remove1 p (w_returning ?w2)) = []"
    using w2(3) by (intro filter_remove1_only) (simp add: returning_for_def)
  have "p \<in> set (returning_for p ?w2)" using w2(3) by simp
  then have pin: "p \<in> set (w_returning ?w2)" by (simp add: returning_for_def)
  show "idle p (finish ?w2 p)"
    using w2 r pin
    by (simp add: idle_def finish_def armed_for_def sending_for_def returning_for_def)
  from after_fire_run[OF cons1 af assms(4)]
  show "sent_for p (run ?w1 sch) = sent_for p ?w \<or>
        sent_for p (run ?w1 sch) = sent_for p ?w @ [?msg]"
    by (auto simp: after_fire_def)
qed

lemma operation_of_examples:
  "operation_of modify_ev = Some ''MODIFY''" "operation_of remove_ev = Some ''DELETE''"
  by (simp_all add: operation_of_def modify_ev_def remove_ev_def Create_def Write_def Remove_def)

lemma event_names: "ev_Name modify_ev = ''f''" "ev_Name remove_ev = ''f''"
  by (simp_all add: modify_ev_def remove_ev_def)

lemma five_modifies_run:
  "run NewWatcher five_modifies =
     \<lparr>w_debouncer = [''f'' \<mapsto> 4], w_armed = [timer_of 4 400 modify_ev], w_sending = [],
      w_returning = [], w_changeChan = [], w_created = 5\<rparr>"
proof -
  have four: "Suc (Suc (Suc (Suc 0))) = 4" by simp
  show ?thesis
    by (simp add: run_def five_modifies_def NewWatcher_def processEvent_def debouncedSend_def
        Stop_def Let_def timer_of_def modify_ev_def four)
qed

text \<open>
  Claim C8, as amended. Take a state the watcher can reach in which a path is idle: it has
  no armed timer and none of its callbacks is running. Through a burst for the path
  (the handler, the runtime, the consumer and the callbacks step in any order, every step
  before the deadline of the path's timer, so every notification of the path comes less
  than 500 ms after the one before and carries a create, write or remove flag) no event
  is sent for the path, and at the end exactly one timer is pending for it: that of the
  path's last notification, due 500 ms after it. When a pending timer whose event carries
  one of the three flags fires, at or after its deadline, its callback offers one event,
  with the path, the operation of that notification and the time of firing, and nothing
  has been sent yet; when the consumer receives it, it is the one event added for the
  path, and once the callback has deleted the map entry the path is idle again; and as
  long as no notification of the path arrives, whatever else happens, the events sent for
  the path are those from before and at most this one. This holds for \<open>DELETE\<close> as
  for the other operations.
\<close>

theorem debounce_contract:
  "(idle p (run NewWatcher hist) \<and> burst p None sch \<and> last_note p sch = Some (t, ev) \<longrightarrow>
      (\<exists>tm. pending p tm (run NewWatcher (hist @ sch)) \<and> tm_deadline tm = t + 500 \<and>
            tm_event tm = ev) \<and>
      sent_for p (run NewWatcher (hist @ sch)) = sent_for p (run NewWatcher hist)) \<and>
   (pending q tm (run NewWatcher h) \<and> tm_deadline tm \<le> now \<and>
    operation_of (tm_event tm) = Some op \<and> silent q rest \<longrightarrow>
      sent_for q (fire (run NewWatcher h) now tm) = sent_for q (run NewWatcher h) \<and>
      sending_for q (fire (run NewWatcher h) now tm) =
        [(q, \<lparr>fe_Path = q, fe_Operation = op, fe_Timestamp = now\<rparr>)] \<and>
      sent_for q (receive (fire (run NewWatcher h) now tm)
          (q, \<lparr>fe_Path = q, fe_Operation = op, fe_Timestamp = now\<rparr>)) =
        sent_for q (run NewWatcher h) @ [\<lparr>fe_Path = q, fe_Operation = op, fe_Timestamp = now\<rparr>] \<and>
      idle q (finish (receive (fire (run NewWatcher h) now tm)
          (q, \<lparr>fe_Path = q, fe_Operation = op, fe_Timestamp = now\<rparr>)) q) \<and>
      (sent_for q (run (fire (run NewWatcher h) now tm) rest) = sent_for q (run NewWatcher h) \<or>
       sent_for q (run (fire (run NewWatcher h) now tm) rest) =
         sent_for q (run NewWatcher h) @ [\<lparr>fe_Path = q, fe_Operation = op, fe_Timestamp = now\<rparr>]))"
  using burst_contract[of p hist sch t ev] firing_contract[of q tm h now op rest]
  by blast

text \<open>
  The instance of C8 on five writes of \<open>f\<close> 100 ms apart: one timer is pending, due at
  900 ms, and its firing sends exactly one \<open>MODIFY\<close> event.
\<close>

theorem debounce_contract_witness:
  "idle ''f'' (run NewWatcher []) \<and> burst ''f'' None five_modifies \<and>
   last_note ''f'' five_modifies = Some (400, modify_ev) \<and>
   pending ''f'' (timer_of 4 400 modify_ev) (run NewWatcher five_modifies) \<and>
   tm_deadline (timer_of 4 400 modify_ev) \<le> 900 \<and>
   operation_of (tm_event (timer_of 4 400 modify_ev)) = Some ''MODIFY'' \<and>
   silent ''f'' [(950, Receive (message ''MODIFY'' 900)), (960, Return ''f'')] \<and>
   sent_for ''f'' (run NewWatcher five_modifies) = [] \<and>
   sending_for ''f'' (fire (run NewWatcher five_modifies) 900 (timer_of 4 400 modify_ev)) =
     [message ''MODIFY'' 900] \<and>
   sent_for ''f'' (receive (fire (run NewWatcher five_modifies) 900 (timer_of 4 400 modify_ev))
       (message ''MODIFY'' 900)) = [snd (message ''MODIFY'' 900)] \<and>
   sent_for ''f'' (run (fire (run NewWatcher five_modifies) 900 (timer_of 4 400 modify_ev))
       [(950, Receive (message ''MODIFY'' 900)), (960, Return ''f'')]) =
     [snd (message ''MODIFY'' 900)]"
proof -
  let ?tm = "timer_of 4 400 modify_ev"
  let ?rest = "[(950, Receive (message ''MODIFY'' 900)), (960, Return ''f'')]"
  have i: "idle ''f'' (run NewWatcher [])"
    by (simp add: idle_def run_def NewWatcher_def armed_for_def sending_for_def returning_for_def)
  have b: "burst ''f'' None five_modifies"
    by (simp add: five_modifies_def operation_of_examples event_names)
  have l: "last_note ''f'' five_modifies = Some (400, modify_ev)"
    by (simp add: five_modifies_def event_names)
  have p: "pending ''f'' ?tm (run NewWatcher five_modifies)"
    by (simp add: five_modifies_run pending_def armed_for_def sending_for_def returning_for_def)
       (simp add: timer_of_def modify_ev_def)
  have d: "tm_deadline ?tm \<le> 900" "operation_of (tm_event ?tm) = Some ''MODIFY''"
    by (simp_all add: timer_of_def operation_of_examples)
  have s: "silent ''f'' ?rest" by simp
  have e: "sent_for ''f'' (run NewWatcher []) = []"
    by (simp add: sent_for_def run_def NewWatcher_def)
  have r: "sent_for ''f'' (run (fire (run NewWatcher five_modifies) 900 ?tm) ?rest) =
      [snd (message ''MODIFY'' 900)]"
    by (simp add: five_modifies_run run_Cons run_Nil fire_def receive_def finish_def sent_for_def
        timer_of_def operation_of_examples event_names message_def)
  from debounce_contract[where p = "''f''" and hist = "[]" and sch = five_modifies and t = 400
      and ev = modify_ev and q = "''f''" and tm = ?tm and h = five_modifies and now = 900
      and op = "''MODIFY''" and rest = ?rest]
  show ?thesis
    using i b l p d s e r by (simp add: message_def)
qed

text \<open>
  Claim C8 as stated fails for \<open>DELETE\<close>: after a removal is notified at time 0 nothing
  has been sent and no callback offers an event; the timer, due at 500 ms, cannot fire at
  499 ms; the \<open>DELETE\<close> event is sent when it fires at 500 ms.
\<close>

theorem delete_waits_counterexample:
  "operation_of remove_ev = Some ''DELETE'' \<and>
   w_changeChan (run NewWatcher [(0, Notify remove_ev)]) = [] \<and>
   w_sending (run NewWatcher [(0, Notify remove_ev)]) = [] \<and>
   w_armed (run NewWatcher [(0, Notify remove_ev)]) = [timer_of 0 0 remove_ev] \<and>
   tm_deadline (timer_of 0 0 remove_ev) = 500 \<and>
   w_sending (run NewWatcher [(0, Notify remove_ev), (499, Fire (timer_of 0 0 remove_ev))]) = [] \<and>
   w_changeChan (run NewWatcher [(0, Notify remove_ev), (500, Fire (timer_of 0 0 remove_ev)),
       (500, Receive (message ''DELETE'' 500))]) = [snd (message ''DELETE'' 500)]"
  by (simp add: run_def NewWatcher_def processEvent_def debouncedSend_def Let_def fire_def
      receive_def timer_of_def operation_of_examples message_def)
     (simp add: remove_ev_def)

text \<open>
  While a callback of a path waits in its send, a notification of the path cannot stop the
  fired timer, and the callback later deletes the map entry of the newer timer: here the
  writes at 600 and 800 ms, 200 ms apart, each end in an event.
\<close>

lemma stale_delete_race:
  "w_changeChan (run NewWatcher
      [(0, Notify modify_ev), (500, Fire (timer_of 0 0 modify_ev)),
       (600, Notify modify_ev),
       (700, Receive (message ''MODIFY'' 500)), (700, Return ''f''),
       (800, Notify modify_ev),
       (1100, Fire (timer_of 1 600 modify_ev)), (1100, Receive (message ''MODIFY'' 1100)),
       (1100, Return ''f''),
       (1300, Fire (timer_of 2 800 modify_ev)), (1300, Receive (message ''MODIFY'' 1300)),
       (1300, Return ''f'')]) =
     [snd (message ''MODIFY'' 500), snd (message ''MODIFY'' 1100), snd (message ''MODIFY'' 1300)]"
proof -
  let ?m = modify_ev
  have ids: "Suc 0 = 1" "Suc 1 = 2" "Suc 2 = 3" by simp_all
  have s1: "step NewWatcher (0, Notify ?m) =
      \<lparr>w_debouncer = [''f'' \<mapsto> 0], w_armed = [timer_of 0 0 ?m], w_sending = [],
       w_returning = [], w_changeChan = [], w_created = 1\<rparr>"
    by (simp add: NewWatcher_def processEvent_def debouncedSend_def Let_def timer_of_def
        event_names)
  have s2: "step \<lparr>w_debouncer = [''f'' \<mapsto> 0], w_armed = [timer_of 0 0 ?m], w_sending = [],
       w_returning = [], w_changeChan = [], w_created = 1\<rparr> (500, Fire (timer_of 0 0 ?m)) =
      \<lparr>w_debouncer = [''f'' \<mapsto> 0], w_armed = [], w_sending = [message ''MODIFY'' 500],
       w_returning = [], w_changeChan = [], w_created = 1\<rparr>"
    by (simp add: fire_def timer_of_def operation_of_examples event_names message_def)
  have s3: "step \<lparr>w_debouncer = [''f'' \<mapsto> 0], w_armed = [], w_sending = [message ''MODIFY'' 500],
       w_returning = [], w_changeChan = [], w_created = 1\<rparr> (600, Notify ?m) =
      \<lparr>w_debouncer = [''f'' \<mapsto> 1], w_armed = [timer_of 1 600 ?m],
       w_sending = [message ''MODIFY'' 500],
       w_returning = [], w_changeChan = [], w_created = 2\<rparr>"
    by (simp add: processEvent_def debouncedSend_def Stop_def Let_def timer_of_def event_names)
  have s4: "step \<lparr>w_debouncer = [''f'' \<mapsto> 1], w_armed = [timer_of 1 600 ?m],
       w_sending = [message ''MODIFY'' 500],
       w_returning = [], w_changeChan = [], w_created = 2\<rparr> (700, Receive (message ''MODIFY'' 500)) =
      \<lparr>w_debouncer = [''f'' \<mapsto> 1], w_armed = [timer_of 1 600 ?m], w_sending = [],
       w_returning = [''f''], w_changeChan = [snd (message ''MODIFY'' 500)], w_created = 2\<rparr>"
    by (simp add: receive_def message_def)
  have s5: "step \<lparr>w_debouncer = [''f'' \<mapsto> 1], w_armed = [timer_of 1 600 ?m], w_sending = [],
       w_returning = [''f''], w_changeChan = [snd (message ''MODIFY'' 500)], w_created = 2\<rparr>
       (700, Return ''f'') =
      \<lparr>w_debouncer = Map.empty, w_armed = [timer_of 1 600 ?m], w_sending = [],
       w_returning = [], w_changeChan = [snd (message ''MODIFY'' 500)], w_created = 2\<rparr>"
    by (simp add: finish_def)
  have s6: "step \<lparr>w_debouncer = Map.empty, w_armed = [timer_of 1 600 ?m], w_sending = [],
       w_returning = [], w_changeChan = [snd (message ''MODIFY'' 500)], w_created = 2\<rparr>
       (800, Notify ?m) =
      \<lparr>w_debouncer = [''f'' \<mapsto> 2], w_armed = [timer_of 1 600 ?m, timer_of 2 800 ?m],
       w_sending = [], w_returning = [], w_changeChan = [snd (message ''MODIFY'' 500)],
       w_created = 3\<rparr>"
    by (simp add: processEvent_def debouncedSend_def Let_def timer_of_def event_names)
  have s7: "step \<lparr>w_debouncer = [''f'' \<mapsto> 2], w_armed = [timer_of 1 600 ?m, timer_of 2 800 ?m],
       w_sending = [], w_returning = [], w_changeChan = [snd (message ''MODIFY'' 500)],
       w_created = 3\<rparr> (1100, Fire (timer_of 1 600 ?m)) =
      \<lparr>w_debouncer = [''f'' \<mapsto> 2], w_armed = [timer_of 2 800 ?m],
       w_sending = [message ''MODIFY'' 1100], w_returning = [],
       w_changeChan = [snd (message ''MODIFY'' 500)], w_created = 3\<rparr>"
    by (simp add: fire_def timer_of_def operation_of_examples event_names message_def)
  have s8: "step \<lparr>w_debouncer = [''f'' \<mapsto> 2], w_armed = [timer_of 2 800 ?m],
       w_sending = [message ''MODIFY'' 1100], w_returning = [],
       w_changeChan = [snd (message ''MODIFY'' 500)], w_created = 3\<rparr>
       (1100, Receive (message ''MODIFY'' 1100)) =
      \<lparr>w_debouncer = [''f'' \<mapsto> 2], w_armed = [timer_of 2 800 ?m],
       w_sending = [], w_returning = [''f''],
       w_changeChan = [snd (message ''MODIFY'' 500), snd (message ''MODIFY'' 1100)],
       w_created = 3\<rparr>"
    by (simp add: receive_def message_def)
  have s9: "step \<lparr>w_debouncer = [''f'' \<mapsto> 2], w_armed = [timer_of 2 800 ?m],
       w_sending = [], w_returning = [''f''],
       w_changeChan = [snd (message ''MODIFY'' 500), snd (message ''MODIFY'' 1100)],
       w_created = 3\<rparr> (1100, Return ''f'') =
      \<lparr>w_debouncer = Map.empty, w_armed = [timer_of 2 800 ?m],
       w_sending = [], w_returning = [],
       w_changeChan = [snd (message ''MODIFY'' 500), snd (message ''MODIFY'' 1100)],
       w_created = 3\<rparr>"
    by (simp add: finish_def)
  have s10: "step \<lparr>w_debouncer = Map.empty, w_armed = [timer_of 2 800 ?m],
       w_sending = [], w_returning = [],
       w_changeChan = [snd (message ''MODIFY'' 500), snd (message ''MODIFY'' 1100)],
       w_created = 3\<rparr> (1300, Fire (timer_of 2 800 ?m)) =
      \<lparr>w_debouncer = Map.empty, w_armed = [],
       w_sending = [message ''MODIFY'' 1300], w_returning = [],
       w_changeChan = [snd (message ''MODIFY'' 500), snd (message ''MODIFY'' 1100)],
       w_created = 3\<rparr>"
    by (simp add: fire_def timer_of_def operation_of_examples event_names message_def)
  have s11: "step \<lparr>w_debouncer = Map.empty, w_armed = [],
       w_sending = [message ''MODIFY'' 1300], w_returning = [],
       w_changeChan = [snd (message ''MODIFY'' 500), snd (message ''MODIFY'' 1100)],
       w_created = 3\<rparr> (1300, Receive (message ''MODIFY'' 1300)) =
      \<lparr>w_debouncer = Map.empty, w_armed = [],
       w_sending = [], w_returning = [''f''],
       w_changeChan = [snd (message ''MODIFY'' 500), snd (message ''MODIFY'' 1100),
                       snd (message ''MODIFY'' 1300)],
       w_created = 3\<rparr>"
    by (simp add: receive_def message_def)
  have s12: "w_changeChan (step \<lparr>w_debouncer = Map.empty, w_armed = [],
       w_sending = [], w_returning = [''f''],
       w_changeChan = [snd (message ''MODIFY'' 500), snd (message ''MODIFY'' 1100),
                       snd (message ''MODIFY'' 1300)],
       w_created = 3\<rparr> (1300, Return ''f'')) =
      [snd (message ''MODIFY'' 500), snd (message ''MODIFY'' 1100), snd (message ''MODIFY'' 1300)]"
    by (simp add: finish_def)
  show ?thesis
    unfolding run_Cons run_Nil s1 s2 s3 s4 s5 s6 s7 s8 s9 s10 s11 by (rule s12)
qed

end
